theory Spec2Isabelle
  imports Complex_Main
begin

section \<open>Data model of the sleep-data update pipeline\<close>

text \<open>
  The development follows \<^verbatim>\<open>update_garmin_sleep.py\<close>. A calendar date is its proleptic
  Gregorian ordinal (Python's \<^verbatim>\<open>date.toordinal()\<close>), so that adding a
  \<^verbatim>\<open>timedelta(days=n)\<close> is adding \<open>n\<close>. A localized timestamp is the wall-clock
  view that pandas' \<^verbatim>\<open>.dt\<close> accessors read. Durations are whole seconds. A pandas
  \<^verbatim>\<open>NaT\<close>/\<^verbatim>\<open>NaN\<close>/\<^verbatim>\<open>None\<close> cell is \<open>None\<close>. A data frame is the
  list of its rows, in row order. A \<^verbatim>\<open>datetime.date\<close> and the pandas timestamp of its
  midnight are the same date here, and the parsing of date strings is left out.
\<close>

type_synonym date = int

datatype error = IndexError | ValueError | Exception nat

record timestamp =
  ts_date :: date
  ts_hour :: nat
  ts_minute :: nat
  ts_second :: nat

text \<open>One entry of the provider's JSON array, with the keys \<^verbatim>\<open>converter\<close> reads.\<close>

record raw_night =
  calendarDate :: date
  sleepStartTimestampGMT :: "int option"
  sleepEndTimestampGMT :: "int option"
  deepSleepSeconds :: "int option"
  lightSleepSeconds :: "int option"
  sleepTimeSeconds :: "int option"
  awakeSleepSeconds :: "int option"
  napTimeSeconds :: "int option"
  sleepWindowConfirmed :: "bool option"

text \<open>
  The columns that the night archive and the dashboard tables share, and the rows built on
  them: \<open>night\<close> is a row of the primary night archive \<^verbatim>\<open>nights_df\<close>; \<open>dash\<close> is a
  row of \<^verbatim>\<open>garmin_df\<close>, \<^verbatim>\<open>ms2_df\<close> and \<^verbatim>\<open>all_df\<close>; \<open>all_row\<close> adds the
  session identifier; \<open>descr\<close> adds the calendar features of \<^verbatim>\<open>all_descr_df\<close> (the
  description table shows the identifier, the date, the durations and the features of such
  a row).
\<close>

record session =
  Prev_Day :: date
  Bed_Time :: "timestamp option"
  Wake_Time :: "timestamp option"
  Awake_Dur :: "int option"
  Light_Dur :: "int option"
  Deep_Dur :: "int option"
  Total_Dur :: "int option"

record night = session +
  Nap_Dur :: "int option"
  Window_Conf :: "bool option"

record dash = session +
  Bed_ToD :: "rat option"
  Wake_ToD :: "rat option"

record all_row = dash +
  Sleep_Session_ID :: nat

record descr = all_row +
  Year :: int
  Day :: string
  Is_Holiday :: bool
  Is_Workday :: bool

text \<open>
  One row of the legacy \<^verbatim>\<open>Activity_Summary\<close> tables, with the columns \<^verbatim>\<open>step3\<close>
  reads (\<open>Date_csv\<close> is the column \<^verbatim>\<open>Date\<close>); dates and times are as parsed by
  \<^verbatim>\<open>pd.to_datetime\<close>.
\<close>

record ms_row =
  Event_Type :: string
  Date_csv :: date
  Start_Time :: "timestamp option"
  Wake_Up_Time :: "timestamp option"
  Seconds_Awake :: "int option"
  Seconds_Asleep_Light :: "int option"
  Seconds_Asleep_Restful :: "int option"

text \<open>One row of the solar archive \<^verbatim>\<open>sun_df\<close>.\<close>

record sun_row =
  Date :: date
  Sunrise :: timestamp
  Sunrise_ToD :: rat
  Sunset :: timestamp
  Sunset_ToD :: rat

text \<open>
  The almanac provider's answer for one date: the HTTP status and the two 12-hour clock
  strings as \<^verbatim>\<open>strptime(..., "%I:%M:%S %p")\<close> reads them (hour, minute, second).
\<close>

record sun_response =
  status_code :: nat
  sunrise :: "nat \<times> nat \<times> nat"
  sunset :: "nat \<times> nat \<times> nat"

definition isnull :: "'a option \<Rightarrow> bool" where
  "isnull v = (v = None)"

section \<open>Helpers of the source and of its libraries\<close>

text \<open>
  \<^verbatim>\<open>daterange(date1, date2)\<close>: starts from \<^verbatim>\<open>[date1]\<close> and appends one day
  \<^verbatim>\<open>(date2 - date1).days\<close> times; a negative count appends nothing.
\<close>

definition daterange :: "date \<Rightarrow> date \<Rightarrow> date list" where
  "daterange date1 date2 = date1 # [date1 + 1 .. date2]"

text \<open>\<^verbatim>\<open>np.setdiff1d(a, b)\<close>: the sorted, unique values of \<open>a\<close> that are not in \<open>b\<close>.\<close>

definition setdiff1d :: "date list \<Rightarrow> date list \<Rightarrow> date list" where
  "setdiff1d a b = sort (remdups (filter (\<lambda>x. x \<notin> set b) a))"

text \<open>
  \<^verbatim>\<open>Series.iloc[k]\<close>: positional access; a negative position counts from the end and a
  position outside the series raises \<^verbatim>\<open>IndexError\<close>.
\<close>

definition iloc :: "'a list \<Rightarrow> int \<Rightarrow> error + 'a" where
  "iloc xs k =
     (let n = int (length xs); j = (if k < 0 then n + k else k)
      in if 0 \<le> j \<and> j < n then Inr (xs ! nat j) else Inl IndexError)"

text \<open>
  \<^verbatim>\<open>df.sort_values("Prev_Day")\<close> orders the rows by that column, ascending. Rows with
  equal keys are kept here in their former order.
\<close>

definition sort_values_Prev_Day :: "'a session_scheme list \<Rightarrow> 'a session_scheme list" where
  "sort_values_Prev_Day df = sort_key Prev_Day df"

section \<open>Record Normalizer: \<^verbatim>\<open>converter\<close>\<close>

text \<open>
  \<^verbatim>\<open>sleep_timestamp\<close> and \<^verbatim>\<open>sleep_timedelta\<close> pass \<^verbatim>\<open>None\<close> through. The
  conversion of epoch milliseconds to an instant of the configured local time zone is done by
  \<^verbatim>\<open>pytz\<close> and pandas; it is the parameter \<open>to_local\<close>.
\<close>

definition converter :: "(int \<Rightarrow> timestamp) \<Rightarrow> raw_night list \<Rightarrow> night list" where
  "converter to_local data =
     map (\<lambda>d. \<lparr> Prev_Day = calendarDate d - 1,
                 Bed_Time = map_option to_local (sleepStartTimestampGMT d),
                 Wake_Time = map_option to_local (sleepEndTimestampGMT d),
                 Awake_Dur = awakeSleepSeconds d,
                 Light_Dur = lightSleepSeconds d,
                 Deep_Dur = deepSleepSeconds d,
                 Total_Dur = sleepTimeSeconds d,
                 Nap_Dur = napTimeSeconds d,
                 Window_Conf = sleepWindowConfirmed d \<rparr>) data"

section \<open>Gap Detector: \<^verbatim>\<open>step0\<close>\<close>

text \<open>
  \<open>start_date\<close> and \<open>end_date\<close> are the module's configured range; \<open>nights_df\<close> is the
  archive read from storage (empty when there is no file). The message is left out.
\<close>

definition step0 :: "date \<Rightarrow> date \<Rightarrow> night list \<Rightarrow> date list" where
  "step0 start_date end_date nights_df =
     (let req_dates_ls = daterange start_date end_date
      in if length nights_df > 0
         then setdiff1d req_dates_ls (map Prev_Day nights_df)
         else req_dates_ls)"

section \<open>Archive Merger: the first part of \<^verbatim>\<open>step3\<close>\<close>

text \<open>The row appended for a requested date the provider returned nothing for.\<close>

definition new_missing_row :: "date \<Rightarrow> night" where
  "new_missing_row d =
     \<lparr> Prev_Day = d, Bed_Time = None, Wake_Time = None, Awake_Dur = None, Light_Dur = None,
       Deep_Dur = None, Total_Dur = None, Nap_Dur = None, Window_Conf = None \<rparr>"

definition fill_missing :: "night list \<Rightarrow> date list \<Rightarrow> night list" where
  "fill_missing new_nights_df new_req_dates_ls =
     (let new_missing_dates_ls = setdiff1d new_req_dates_ls (map Prev_Day new_nights_df)
      in new_nights_df @ map new_missing_row new_missing_dates_ls)"

text \<open>Dropping the nights already archived, appending, sorting.\<close>

definition merge_nights :: "night list \<Rightarrow> night list \<Rightarrow> night list" where
  "merge_nights nights_df new_nights_df =
     (if length nights_df > 0
      then sort_values_Prev_Day
             (nights_df @ filter (\<lambda>r. Prev_Day r \<notin> set (map Prev_Day nights_df)) new_nights_df)
      else sort_values_Prev_Day new_nights_df)"

text \<open>
  The trailing-null trim loop
  \<^verbatim>\<open>while pd.isnull(nights_df.Total_Dur.iloc[-i]) & (len(nights_df) >= i)\<close>.
  Both operands of \<^verbatim>\<open>&\<close> are evaluated, the left one first, so the row at \<open>-i\<close> is read
  before the bound is compared. The loop returns the positions its condition has read, in
  order, and either the error raised or \<^verbatim>\<open>unknown_nights_ls\<close>.
\<close>

function trim_loop ::
  "night list \<Rightarrow> nat \<Rightarrow> date list \<Rightarrow> int list \<Rightarrow> int list \<times> (error + date list)" where
  "trim_loop nights_df i unknown_nights_ls reads =
     (case iloc (map Total_Dur nights_df) (- int i) of
        Inl e \<Rightarrow> (reads @ [- int i], Inl e)
      | Inr v \<Rightarrow>
          if isnull v \<and> length nights_df \<ge> i
          then (case iloc (map Prev_Day nights_df) (- int i) of
                  Inl e \<Rightarrow> (reads @ [- int i], Inl e)
                | Inr d \<Rightarrow> trim_loop nights_df (i + 1) (unknown_nights_ls @ [d])
                             (reads @ [- int i]))
          else (reads @ [- int i], Inr unknown_nights_ls))"
  by pat_completeness auto
termination
  by (relation "measure (\<lambda>(df, i, u, r). length df + 1 - i)") auto

declare trim_loop.simps [simp del]

definition trim_unknown :: "night list \<Rightarrow> error + night list" where
  "trim_unknown nights_df =
     (case snd (trim_loop nights_df 1 [] []) of
        Inl e \<Rightarrow> Inl e
      | Inr unknown_nights_ls \<Rightarrow>
          Inr (filter (\<lambda>r. Prev_Day r \<notin> set unknown_nights_ls) nights_df))"

text \<open>
  The archive that \<^verbatim>\<open>step3\<close> pickles: normalize, fill, merge, trim. An error leaves
  \<^verbatim>\<open>step3\<close> before anything is written.
\<close>

definition step3_archive ::
  "(int \<Rightarrow> timestamp) \<Rightarrow> night list \<Rightarrow> raw_night list \<Rightarrow> date list \<Rightarrow> error + night list" where
  "step3_archive to_local nights_df data new_req_dates_ls =
     trim_unknown
       (merge_nights nights_df (fill_missing (converter to_local data) new_req_dates_ls))"

section \<open>Session Acquirer: the download loop of \<^verbatim>\<open>step2\<close>\<close>

text \<open>
  \<open>download_to_json\<close> stands for the source function of that name with the session's
  headers and identifier fixed: it answers a start and an end date with the parsed records or
  with the exception \<^verbatim>\<open>download\<close> raises on a status other than 200. The loop returns
  the requests it has issued, in order, next to its result, the list of per-period answers.
\<close>

definition max_period_delta :: int where
  "max_period_delta = 31"

definition period_end_of :: "date list \<Rightarrow> date" where
  "period_end_of get_dates_ls =
     (let period_start = Min (set get_dates_ls)
      in if Max (set get_dates_ls) - period_start > max_period_delta - 1
         then period_start + max_period_delta
         else Max (set get_dates_ls))"

function step2_loop ::
  "(date \<Rightarrow> date \<Rightarrow> error + raw_night list) \<Rightarrow> date list \<Rightarrow> (date \<times> date) list \<Rightarrow>
   raw_night list list \<Rightarrow> (date \<times> date) list \<times> (error + raw_night list list)" where
  "step2_loop download_to_json get_dates_ls requests data =
     (if length get_dates_ls > 0
      then (let period_start = Min (set get_dates_ls);
                period_end = period_end_of get_dates_ls
            in case download_to_json period_start period_end of
                 Inl e \<Rightarrow> (requests @ [(period_start, period_end)], Inl e)
               | Inr json \<Rightarrow>
                   step2_loop download_to_json (filter (\<lambda>d. d > period_end) get_dates_ls)
                     (requests @ [(period_start, period_end)]) (data @ [json]))
      else (requests, Inr data))"
  by pat_completeness auto
termination
proof (relation "measure (\<lambda>(dl, ds, rq, dt). length ds)")
  show "wf (measure (\<lambda>(dl, ds, rq, dt). length ds))" by simp
next
  fix download_to_json :: "date \<Rightarrow> date \<Rightarrow> error + raw_night list"
  fix get_dates_ls :: "date list" and requests :: "(date \<times> date) list"
  fix data :: "raw_night list list" and x xa :: date and x2 :: "raw_night list"
  assume ne: "0 < length get_dates_ls" and x: "x = Min (set get_dates_ls)"
    and xa: "xa = period_end_of get_dates_ls"
  from ne have nonempty: "get_dates_ls \<noteq> []" by auto
  then have mem: "Min (set get_dates_ls) \<in> set get_dates_ls" by simp
  from nonempty have "Min (set get_dates_ls) \<le> Max (set get_dates_ls)" by simp
  then have "Min (set get_dates_ls) \<le> period_end_of get_dates_ls"
    by (simp add: period_end_of_def Let_def max_period_delta_def)
  then have "\<not> Min (set get_dates_ls) > period_end_of get_dates_ls"
    by (simp only: not_less)
  with mem have "length (filter (\<lambda>d. d > period_end_of get_dates_ls) get_dates_ls)
      < length get_dates_ls"
    by (rule length_filter_less)
  then have "length (filter (\<lambda>d. d > xa) get_dates_ls) < length get_dates_ls"
    by (simp only: xa)
  then show "((download_to_json, filter (\<lambda>d. d > xa) get_dates_ls,
               requests @ [(x, xa)], data @ [x2]),
              (download_to_json, get_dates_ls, requests, data))
             \<in> measure (\<lambda>(dl, ds, rq, dt). length ds)"
    by simp
qed

declare step2_loop.simps [simp del]

text \<open>\<^verbatim>\<open>list(chain.from_iterable(data))\<close> joins the answers in the order received.\<close>

definition step2 ::
  "(date \<Rightarrow> date \<Rightarrow> error + raw_night list) \<Rightarrow> date list \<Rightarrow>
   (date \<times> date) list \<times> (error + raw_night list)" where
  "step2 download_to_json new_req_dates_ls =
     (case step2_loop download_to_json new_req_dates_ls [] [] of
        (requests, Inl e) \<Rightarrow> (requests, Inl e)
      | (requests, Inr data) \<Rightarrow> (requests, Inr (concat data)))"

section \<open>Time of day\<close>

text \<open>
  \<^verbatim>\<open>hour + minute/60\<close> and \<^verbatim>\<open>x -= 24*(x > 12)\<close>. The source computes in floating
  point; the values here are the exact rationals.
\<close>

definition decimal_hours :: "timestamp \<Rightarrow> rat" where
  "decimal_hours t = of_nat (ts_hour t) + of_nat (ts_minute t) / 60"

definition make_pm_negative :: "rat \<Rightarrow> rat" where
  "make_pm_negative x = x - 24 * (if x > 12 then 1 else 0)"

text \<open>The dashboard row of a night: the nap and confirmation columns dropped, the two
  time-of-day columns added.\<close>

definition garmin_row :: "night \<Rightarrow> dash" where
  "garmin_row n =
     \<lparr> Prev_Day = Prev_Day n, Bed_Time = Bed_Time n, Wake_Time = Wake_Time n,
       Awake_Dur = Awake_Dur n, Light_Dur = Light_Dur n, Deep_Dur = Deep_Dur n,
       Total_Dur = Total_Dur n,
       Bed_ToD = map_option (\<lambda>t. make_pm_negative (decimal_hours t)) (Bed_Time n),
       Wake_ToD = map_option decimal_hours (Wake_Time n) \<rparr>"

section \<open>Secondary-Source Reconciler\<close>

text \<open>
  \<^verbatim>\<open>tz_localize("US/Eastern", ambiguous="NaT")\<close> keeps the wall-clock time and turns an
  ambiguous one into \<^verbatim>\<open>NaT\<close>; which times are ambiguous is the time-zone database's
  matter, the parameter \<open>ambiguous\<close>.
\<close>

definition tz_localize :: "(timestamp \<Rightarrow> bool) \<Rightarrow> timestamp option \<Rightarrow> timestamp option" where
  "tz_localize ambiguous v =
     (case v of None \<Rightarrow> None | Some t \<Rightarrow> if ambiguous t then None else Some t)"

text \<open>The frame \<^verbatim>\<open>ms2_df\<close> when the adjusting loop runs: only the first two columns
  exist yet.\<close>

definition ms2_init :: "(timestamp \<Rightarrow> bool) \<Rightarrow> ms_row \<Rightarrow> dash" where
  "ms2_init ambiguous r =
     \<lparr> Prev_Day = Date_csv r, Bed_Time = tz_localize ambiguous (Start_Time r),
       Wake_Time = None, Awake_Dur = None, Light_Dur = None, Deep_Dur = None,
       Total_Dur = None, Bed_ToD = None, Wake_ToD = None \<rparr>"

text \<open>
  \<^verbatim>\<open>for i_row in range(len(ms2_df)-1)\<close>: a row whose bed time has an hour before 12 gets
  its \<^verbatim>\<open>Prev_Day\<close> moved back one day. The hour of \<^verbatim>\<open>NaT\<close> is \<^verbatim>\<open>nan\<close>, which is
  not below 12.
\<close>

definition adjust_row :: "dash list \<Rightarrow> nat \<Rightarrow> dash list" where
  "adjust_row ms2_df i_row =
     (case Bed_Time (ms2_df ! i_row) of
        None \<Rightarrow> ms2_df
      | Some t \<Rightarrow>
          if ts_hour t < 12
          then ms2_df[i_row := (ms2_df ! i_row)\<lparr>Prev_Day := Prev_Day (ms2_df ! i_row) - 1\<rparr>]
          else ms2_df)"

definition adjust_loop :: "dash list \<Rightarrow> dash list" where
  "adjust_loop ms2_df = fold (\<lambda>i_row df. adjust_row df i_row) [0 ..< length ms2_df - 1] ms2_df"

text \<open>Timedelta sums: \<^verbatim>\<open>NaT\<close> if any part is.\<close>

definition add_dur :: "int option \<Rightarrow> int option \<Rightarrow> int option" where
  "add_dur a b = (case a of None \<Rightarrow> None | Some x \<Rightarrow> map_option (\<lambda>y. x + y) b)"

text \<open>The columns \<^verbatim>\<open>step3\<close> adds to \<^verbatim>\<open>ms2_df\<close> after the loop.\<close>

definition ms2_fill :: "(timestamp \<Rightarrow> bool) \<Rightarrow> ms_row \<Rightarrow> dash \<Rightarrow> dash" where
  "ms2_fill ambiguous r row =
     row\<lparr> Wake_Time := tz_localize ambiguous (Wake_Up_Time r),
          Light_Dur := Seconds_Asleep_Light r,
          Deep_Dur := Seconds_Asleep_Restful r,
          Total_Dur := add_dur (add_dur (Seconds_Awake r) (Seconds_Asleep_Light r))
                         (Seconds_Asleep_Restful r),
          Bed_ToD := map_option (\<lambda>t. make_pm_negative (decimal_hours t)) (Bed_Time row),
          Wake_ToD := map_option decimal_hours (tz_localize ambiguous (Wake_Up_Time r)) \<rparr>"

definition ms2_df_of :: "(timestamp \<Rightarrow> bool) \<Rightarrow> ms_row list \<Rightarrow> dash list" where
  "ms2_df_of ambiguous csv =
     (let ms_df = filter (\<lambda>r. Event_Type r = ''Sleep'') csv
      in map2 (ms2_fill ambiguous) ms_df (adjust_loop (map (ms2_init ambiguous) ms_df)))"

text \<open>The nap filter. A comparison with \<^verbatim>\<open>NaT\<close> or \<^verbatim>\<open>NaN\<close> is false.\<close>

definition brief_sleep_bool :: "dash \<Rightarrow> bool" where
  "brief_sleep_bool r = (case Total_Dur r of None \<Rightarrow> False | Some s \<Rightarrow> s < 4 * 3600)"

definition daytime_asleep_bool :: "dash \<Rightarrow> bool" where
  "daytime_asleep_bool r = (case Bed_ToD r of None \<Rightarrow> False | Some x \<Rightarrow> x > - 3 \<or> x < 7)"

definition unknown_dur_bool :: "dash \<Rightarrow> bool" where
  "unknown_dur_bool r = isnull (Total_Dur r)"

definition nap_bool :: "dash \<Rightarrow> bool" where
  "nap_bool r = (brief_sleep_bool r \<and> daytime_asleep_bool r)"

definition ms3_df_of :: "dash list \<Rightarrow> dash list" where
  "ms3_df_of ms2_df = filter (\<lambda>r. \<not> nap_bool r \<and> \<not> unknown_dur_bool r) ms2_df"

section \<open>Feature Deriver\<close>

text \<open>
  The calendar fields of a date, as Python's \<^verbatim>\<open>datetime\<close> gives them: the weekday with
  Monday as 0, and year, month and day of the proleptic Gregorian calendar.
\<close>

definition weekday :: "date \<Rightarrow> int" where
  "weekday d = (d + 6) mod 7"

definition ymd :: "date \<Rightarrow> int \<times> int \<times> int" where
  "ymd n =
     (let z = n + 305;
          era = z div 146097;
          doe = z mod 146097;
          yoe = (doe - doe div 1460 + doe div 36524 - doe div 146096) div 365;
          doy = doe - (365 * yoe + yoe div 4 - yoe div 100);
          mp = (5 * doy + 2) div 153;
          d = doy - (153 * mp + 2) div 5 + 1;
          m = (if mp < 10 then mp + 3 else mp - 9);
          y = yoe + era * 400 + (if m \<le> 2 then 1 else 0)
      in (y, m, d))"

definition year_of :: "date \<Rightarrow> int" where
  "year_of n = fst (ymd n)"

definition month_of :: "date \<Rightarrow> int" where
  "month_of n = fst (snd (ymd n))"

definition day_of :: "date \<Rightarrow> int" where
  "day_of n = snd (snd (ymd n))"

definition day_map :: "int \<Rightarrow> string" where
  "day_map w =
     [''Monday'', ''Tuesday'', ''Wednesday'', ''Thursday'', ''Friday'', ''Saturday'', ''Sunday'']
       ! nat w"

text \<open>The row \<^verbatim>\<open>step3\<close> appends to \<^verbatim>\<open>all_df\<close> for a calendar day without a session.\<close>

definition all_missing_row :: "date \<Rightarrow> dash" where
  "all_missing_row d =
     \<lparr> Prev_Day = d, Bed_Time = None, Wake_Time = None, Awake_Dur = None, Light_Dur = None,
       Deep_Dur = None, Total_Dur = None, Bed_ToD = None, Wake_ToD = None \<rparr>"

definition with_session_id :: "nat \<Rightarrow> dash \<Rightarrow> all_row" where
  "with_session_id i r =
     \<lparr> Prev_Day = Prev_Day r, Bed_Time = Bed_Time r, Wake_Time = Wake_Time r,
       Awake_Dur = Awake_Dur r, Light_Dur = Light_Dur r, Deep_Dur = Deep_Dur r,
       Total_Dur = Total_Dur r, Bed_ToD = Bed_ToD r, Wake_ToD = Wake_ToD r,
       Sleep_Session_ID = i \<rparr>"

text \<open>
  The union of the two sources, filled to one row per calendar day, sorted and numbered;
  \<^verbatim>\<open>min\<close> of an empty column raises \<^verbatim>\<open>ValueError\<close>. Row labels are taken to be row
  positions, so that \<^verbatim>\<open>all_df.loc[len(all_df)] = ...\<close> appends. The result is
  \<^verbatim>\<open>all_df\<close> with \<^verbatim>\<open>complete_dates_ls\<close>.
\<close>

definition all_df_of :: "dash list \<Rightarrow> dash list \<Rightarrow> error + (all_row list \<times> date list)" where
  "all_df_of garmin_df ms3_df =
     (let all_df = garmin_df @ ms3_df
      in if all_df = [] then Inl ValueError
         else (let complete_dates_ls =
                     daterange (Min (set (map Prev_Day all_df))) (Max (set (map Prev_Day all_df)));
                   missing_dates_ls = setdiff1d complete_dates_ls (map Prev_Day all_df);
                   filled = sort_values_Prev_Day (all_df @ map all_missing_row missing_dates_ls)
               in Inr (map2 with_session_id [0 ..< length filled] filled, complete_dates_ls)))"

text \<open>
  The holiday list: \<open>holidays\<close> is what pandas' \<^verbatim>\<open>USFederalHolidayCalendar\<close> returns for
  the span of the table. The day after Thanksgiving is added; the holidays of February and
  October and those of November before the 20th are removed.
\<close>

definition adjust_holidays :: "date list \<Rightarrow> date list" where
  "adjust_holidays holidays =
     (let nov_holidays = filter (\<lambda>h. month_of h = 11) holidays;
          tg_holidays = filter (\<lambda>h. day_of h > 20) nov_holidays;
          bf_holidays = map (\<lambda>h. h + 1) tg_holidays;
          holidays1 = holidays @ bf_holidays;
          holidays2 = filter (\<lambda>h. month_of h \<noteq> 2 \<and> month_of h \<noteq> 10) holidays1
      in filter (\<lambda>h. \<not> (month_of h = 11 \<and> day_of h < 20)) holidays2)"

text \<open>
  The non-workday windows: the day before and the six days after each December holiday, and
  the leave period from 2019-10-28 (ordinal 737360) to the configured \<open>end_date\<close>.
\<close>

definition vacay_of :: "date list \<Rightarrow> date \<Rightarrow> date list" where
  "vacay_of holidays end_date =
     (let christmas_holidays = filter (\<lambda>h. month_of h = 12) holidays;
          vacay = map (\<lambda>h. h - 1) christmas_holidays
                  @ concat (map (\<lambda>n. map (\<lambda>h. h + n) christmas_holidays) [1 .. 6]);
          start_dt_date = 737360;
          layoff_series = [start_dt_date .. end_date]
      in vacay @ layoff_series)"

definition is_weekend_bool :: "string \<Rightarrow> bool" where
  "is_weekend_bool day = (day \<in> set [''Friday'', ''Saturday''])"

definition descr_row :: "date list \<Rightarrow> date list \<Rightarrow> all_row \<Rightarrow> descr" where
  "descr_row holidays vacay r =
     (let day = day_map (weekday (Prev_Day r));
          is_holiday0 = (Prev_Day r \<in> set holidays);
          is_holiday = (if is_weekend_bool day then False else is_holiday0);
          is_workday0 = (\<not> (is_holiday \<or> Prev_Day r \<in> set vacay));
          is_workday = (if is_weekend_bool day then False else is_workday0)
      in \<lparr> Prev_Day = Prev_Day r, Bed_Time = Bed_Time r, Wake_Time = Wake_Time r,
           Awake_Dur = Awake_Dur r, Light_Dur = Light_Dur r, Deep_Dur = Deep_Dur r,
           Total_Dur = Total_Dur r, Bed_ToD = Bed_ToD r, Wake_ToD = Wake_ToD r,
           Sleep_Session_ID = Sleep_Session_ID r,
           Year = year_of (Prev_Day r), Day = day, Is_Holiday = is_holiday,
           Is_Workday = is_workday \<rparr>)"

definition all_descr_df_of ::
  "(date \<Rightarrow> date \<Rightarrow> date list) \<Rightarrow> date \<Rightarrow> all_row list \<Rightarrow> descr list" where
  "all_descr_df_of calendar_holidays end_date all_df =
     (let holidays = adjust_holidays
            (calendar_holidays (Min (set (map Prev_Day all_df))) (Max (set (map Prev_Day all_df))));
          vacay = vacay_of holidays end_date
      in map (descr_row holidays vacay) all_df)"

text \<open>
  The event table: \<^verbatim>\<open>pd.melt\<close> turns the bed and the wake columns of each row of
  \<^verbatim>\<open>all_df\<close> into two rows, the two melted frames are joined on identifier, date and
  event, and the result is sorted by identifier and event name. An event row is (identifier,
  date, event, timestamp, time of day); the display string, \<^verbatim>\<open>strftime\<close> of the
  timestamp, is left out.
\<close>

type_synonym event_row = "nat \<times> date \<times> string \<times> timestamp option \<times> rat option"

definition all_event_df_of :: "all_row list \<Rightarrow> event_row list" where
  "all_event_df_of all_df =
     concat (map (\<lambda>r. [(Sleep_Session_ID r, Prev_Day r, ''Fell Asleep'', Bed_Time r, Bed_ToD r),
                        (Sleep_Session_ID r, Prev_Day r, ''Woke Up'', Wake_Time r, Wake_ToD r)])
                 all_df)"

text \<open>
  The persisted tables, named after the source's file-name variables; \<open>None\<close> is a file
  that does not exist.
\<close>

record storage =
  garmin_results_pkl_fn :: "night list option"
  all_descr_results_fn :: "descr list option"
  all_event_results_fn :: "event_row list option"
  sun_pkl_fn :: "sun_row list option"

text \<open>
  \<^verbatim>\<open>step3\<close> as a whole, on the storage: the archive is pickled right after the trim, the
  two derived tables at the end. It returns the storage afterwards and either the exception
  or \<^verbatim>\<open>complete_dates_ls\<close>.
\<close>

definition step3 ::
  "(int \<Rightarrow> timestamp) \<Rightarrow> (timestamp \<Rightarrow> bool) \<Rightarrow> (date \<Rightarrow> date \<Rightarrow> date list) \<Rightarrow> date \<Rightarrow>
   ms_row list \<Rightarrow> storage \<Rightarrow> night list \<Rightarrow> raw_night list \<Rightarrow> date list \<Rightarrow>
   storage \<times> (error + date list)" where
  "step3 to_local ambiguous calendar_holidays end_date csv st nights_df data new_req_dates_ls =
     (case step3_archive to_local nights_df data new_req_dates_ls of
        Inl e \<Rightarrow> (st, Inl e)
      | Inr archive \<Rightarrow>
          (let st1 = st\<lparr>garmin_results_pkl_fn := Some archive\<rparr>
           in case all_df_of (map garmin_row archive) (ms3_df_of (ms2_df_of ambiguous csv)) of
                Inl e \<Rightarrow> (st1, Inl e)
              | Inr (all_df, complete_dates_ls) \<Rightarrow>
                  (st1\<lparr>all_descr_results_fn :=
                         Some (all_descr_df_of calendar_holidays end_date all_df),
                       all_event_results_fn := Some (all_event_df_of all_df)\<rparr>,
                   Inr complete_dates_ls)))"

section \<open>Almanac Syncer: \<^verbatim>\<open>step4\<close>\<close>

text \<open>
  \<open>sun_api\<close> is the almanac provider, \<open>astimezone\<close> the conversion of a UTC wall-clock time
  to the configured local zone. The loop returns the dates it has requested next to the frame
  or the exception.
\<close>

definition sun_row_of :: "(timestamp \<Rightarrow> timestamp) \<Rightarrow> date \<Rightarrow> sun_response \<Rightarrow> sun_row" where
  "sun_row_of astimezone w_date response =
     (let on_date = (\<lambda>(h, m, s). astimezone
                  \<lparr> ts_date = w_date, ts_hour = h, ts_minute = m, ts_second = s \<rparr>);
          sunrise_l = on_date (sunrise response);
          sunset_l = on_date (sunset response)
      in \<lparr> Date = w_date,
           Sunrise = sunrise_l, Sunrise_ToD = make_pm_negative (decimal_hours sunrise_l),
           Sunset = sunset_l, Sunset_ToD = make_pm_negative (decimal_hours sunset_l) \<rparr>)"

fun step4_loop ::
  "(date \<Rightarrow> sun_response) \<Rightarrow> (timestamp \<Rightarrow> timestamp) \<Rightarrow> date list \<Rightarrow> sun_row list \<Rightarrow>
   date list \<Rightarrow> date list \<times> (error + sun_row list)" where
  "step4_loop sun_api astimezone [] sun_df requested = (requested, Inr sun_df)"
| "step4_loop sun_api astimezone (w_date # rest) sun_df requested =
     (let response = sun_api w_date
      in if status_code response \<noteq> 200
         then (requested @ [w_date], Inl (Exception (status_code response)))
         else step4_loop sun_api astimezone rest
                (sun_df @ [sun_row_of astimezone w_date response]) (requested @ [w_date]))"

text \<open>
  \<open>sun_pkl\<close> is the solar archive on storage (\<open>None\<close>: no file). The result is the archive
  on storage afterwards, the dates requested and what \<^verbatim>\<open>step4\<close> returns or raises.
  \<^verbatim>\<open>to_pickle\<close> is the last statement before the return, after the loop.
\<close>

definition new_sun_dates_ls_of :: "sun_row list \<Rightarrow> date list \<Rightarrow> date list" where
  "new_sun_dates_ls_of sun_df complete_dates_ls =
     (if length sun_df > 0
      then filter (\<lambda>n. n \<notin> set (map Date sun_df)) complete_dates_ls
      else complete_dates_ls)"

definition step4 ::
  "(date \<Rightarrow> sun_response) \<Rightarrow> (timestamp \<Rightarrow> timestamp) \<Rightarrow> sun_row list option \<Rightarrow> date list \<Rightarrow>
   sun_row list option \<times> date list \<times> (error + sun_row list)" where
  "step4 sun_api astimezone sun_pkl complete_dates_ls =
     (let sun_df = (case sun_pkl of None \<Rightarrow> [] | Some df \<Rightarrow> df);
          new_sun_dates_ls = new_sun_dates_ls_of sun_df complete_dates_ls
      in case step4_loop sun_api astimezone new_sun_dates_ls sun_df [] of
           (requested, Inl e) \<Rightarrow> (sun_pkl, requested, Inl e)
         | (requested, Inr sun_df') \<Rightarrow> (Some sun_df', requested, Inr sun_df'))"

section \<open>The pipeline\<close>

text \<open>
  What a run is given: the configured range and the collaborators outside the source (the
  time-zone conversions, the holiday calendar, the legacy tables, the two providers).
\<close>

record world =
  cfg_start_date :: date
  cfg_end_date :: date
  cfg_to_local :: "int \<Rightarrow> timestamp"
  cfg_ambiguous :: "timestamp \<Rightarrow> bool"
  cfg_calendar_holidays :: "date \<Rightarrow> date \<Rightarrow> date list"
  cfg_csv :: "ms_row list"
  cfg_download_to_json :: "date \<Rightarrow> date \<Rightarrow> error + raw_night list"
  cfg_sun_api :: "date \<Rightarrow> sun_response"
  cfg_astimezone :: "timestamp \<Rightarrow> timestamp"

text \<open>\<^verbatim>\<open>step0\<close> reads the archive if the file exists and starts from an empty frame
  otherwise.\<close>

definition read_nights :: "storage \<Rightarrow> night list" where
  "read_nights st = (case garmin_results_pkl_fn st of None \<Rightarrow> [] | Some df \<Rightarrow> df)"

text \<open>
  One run of the steps 0, 2, 3 and 4 in the order the application calls them (step 1, the
  login, only provides the session that \<open>cfg_download_to_json\<close> stands for; what the
  application reads for its progress messages is not part of the steps). An exception ends
  the run and leaves the storage as the steps before it have written it.
\<close>

definition sync :: "world \<Rightarrow> storage \<Rightarrow> storage \<times> (error + unit)" where
  "sync w st =
     (let nights_df = read_nights st;
          new_req_dates_ls = step0 (cfg_start_date w) (cfg_end_date w) nights_df
      in case snd (step2 (cfg_download_to_json w) new_req_dates_ls) of
           Inl e \<Rightarrow> (st, Inl e)
         | Inr data \<Rightarrow>
             (case step3 (cfg_to_local w) (cfg_ambiguous w) (cfg_calendar_holidays w)
                     (cfg_end_date w) (cfg_csv w) st nights_df data new_req_dates_ls of
                (st3, Inl e) \<Rightarrow> (st3, Inl e)
              | (st3, Inr complete_dates_ls) \<Rightarrow>
                  (case step4 (cfg_sun_api w) (cfg_astimezone w) (sun_pkl_fn st3)
                          complete_dates_ls of
                     (sun_pkl, requested, Inl e) \<Rightarrow> (st3\<lparr>sun_pkl_fn := sun_pkl\<rparr>, Inl e)
                   | (sun_pkl, requested, Inr sun_df) \<Rightarrow>
                       (st3\<lparr>sun_pkl_fn := sun_pkl\<rparr>, Inr ()))))"

section \<open>Auxiliary definitions for the proofs and example data\<close>

text \<open>The rows the trim loop passes over when it starts at position \<open>-i\<close>: the null-duration
  rows at the end of the frame, last row first.\<close>

definition trailing :: "night list \<Rightarrow> nat \<Rightarrow> night list" where
  "trailing df i = takeWhile (\<lambda>r. isnull (Total_Dur r)) (drop (i - 1) (rev df))"

text \<open>The conversion \<open>to_local\<close> for the zone UTC.\<close>

definition to_utc :: "int \<Rightarrow> timestamp" where
  "to_utc ms =
     \<lparr> ts_date = 719163 + ms div 86400000, ts_hour = nat ((ms div 3600000) mod 24),
       ts_minute = nat ((ms div 60000) mod 60), ts_second = nat ((ms div 1000) mod 60) \<rparr>"

text \<open>A provider record and an archive row with a date and a total duration, nothing else.\<close>

definition example_raw :: "date \<Rightarrow> int option \<Rightarrow> raw_night" where
  "example_raw c dur =
     \<lparr> calendarDate = c, sleepStartTimestampGMT = None, sleepEndTimestampGMT = None,
       deepSleepSeconds = None, lightSleepSeconds = None, sleepTimeSeconds = dur,
       awakeSleepSeconds = None, napTimeSeconds = None, sleepWindowConfirmed = None \<rparr>"

definition example_night :: "date \<Rightarrow> int option \<Rightarrow> night" where
  "example_night d dur =
     \<lparr> Prev_Day = d, Bed_Time = None, Wake_Time = None, Awake_Dur = None, Light_Dur = None,
       Deep_Dur = None, Total_Dur = dur, Nap_Dur = None, Window_Conf = None \<rparr>"

text \<open>A provider that holds the records \<open>db\<close> and answers a period with those of its
  calendar dates.\<close>

definition provider_of :: "raw_night list \<Rightarrow> date \<Rightarrow> date \<Rightarrow> error + raw_night list" where
  "provider_of db s e = Inr (filter (\<lambda>r. s \<le> calendarDate r \<and> calendarDate r \<le> e) db)"

text \<open>A legacy sleep entry with a date, a start time and its seconds of light sleep.\<close>

definition example_sleep :: "date \<Rightarrow> nat \<Rightarrow> nat \<Rightarrow> int \<Rightarrow> ms_row" where
  "example_sleep d h m light =
     \<lparr> Event_Type = ''Sleep'', Date_csv = d,
       Start_Time = Some \<lparr> ts_date = d, ts_hour = h, ts_minute = m, ts_second = 0 \<rparr>,
       Wake_Up_Time = None,
       Seconds_Awake = Some 0, Seconds_Asleep_Light = Some light,
       Seconds_Asleep_Restful = Some 0 \<rparr>"

text \<open>No wall-clock time is ambiguous.\<close>

definition never_ambiguous :: "timestamp \<Rightarrow> bool" where
  "never_ambiguous t = False"

text \<open>What the adjusting loop does to one row.\<close>

definition moved_back :: "dash \<Rightarrow> dash" where
  "moved_back r =
     (case Bed_Time r of None \<Rightarrow> r
      | Some t \<Rightarrow> if ts_hour t < 12 then r\<lparr>Prev_Day := Prev_Day r - 1\<rparr> else r)"

text \<open>An almanac provider that fails for the date \<open>bad\<close> and answers every other date.\<close>

definition example_sun_api :: "date \<Rightarrow> date \<Rightarrow> sun_response" where
  "example_sun_api bad d =
     \<lparr> status_code = (if d = bad then 500 else 200), sunrise = (12, 5, 0), sunset = (22, 40, 0) \<rparr>"

text \<open>A table \<^verbatim>\<open>all_df\<close> of days without sessions, and two holiday calendars: an empty one,
  and Thanksgiving and Christmas of 2018.\<close>

definition example_all_df :: "date list \<Rightarrow> all_row list" where
  "example_all_df dates = map2 with_session_id [0 ..< length dates] (map all_missing_row dates)"

definition no_holidays :: "date \<Rightarrow> date \<Rightarrow> date list" where
  "no_holidays s e = []"

definition holidays_2018 :: "date \<Rightarrow> date \<Rightarrow> date list" where
  "holidays_2018 s e = filter (\<lambda>h. s \<le> h \<and> h \<le> e) [737020, 737053]"

text \<open>
  An archive as a run leaves it: not empty, sorted by date, one row for a date, and the last
  row with a known total duration.
\<close>

definition confirmed_archive :: "night list \<Rightarrow> bool" where
  "confirmed_archive a =
     (a \<noteq> [] \<and> sorted (map Prev_Day a) \<and> distinct (map Prev_Day a) \<and> Total_Dur (last a) \<noteq> None)"

text \<open>A provider record falls in a requested period.\<close>

definition in_period :: "date \<times> date \<Rightarrow> raw_night \<Rightarrow> bool" where
  "in_period p r = (fst p \<le> calendarDate r \<and> calendarDate r \<le> snd p)"

text \<open>
  A small world: the range 2020-01-01 to 2020-01-03, a provider with the nights reported
  under 2020-01-02 and 2020-01-03, no legacy data, no holidays, an almanac that answers every
  date; and a storage without any file.
\<close>

definition example_world :: world where
  "example_world =
     \<lparr> cfg_start_date = 737425, cfg_end_date = 737427, cfg_to_local = to_utc,
       cfg_ambiguous = never_ambiguous, cfg_calendar_holidays = no_holidays, cfg_csv = [],
       cfg_download_to_json =
         provider_of [example_raw 737426 (Some 27000), example_raw 737427 (Some 25000)],
       cfg_sun_api = example_sun_api 0, cfg_astimezone = id \<rparr>"

definition no_files :: storage where
  "no_files = \<lparr> garmin_results_pkl_fn = None, all_descr_results_fn = None,
                 all_event_results_fn = None, sun_pkl_fn = None \<rparr>"

section \<open>The trailing-null trim loop\<close>

lemma iloc_neg_in:
  assumes "1 \<le> i" "i \<le> length xs"
  shows "iloc (map f xs) (- int i) = Inr (f (rev xs ! (i - 1)))"
proof -
  have "nat (int (length xs) - int i) = length xs - i" using assms by simp
  moreover have "rev xs ! (i - 1) = xs ! (length xs - i)"
    using assms by (simp add: rev_nth)
  ultimately show ?thesis using assms by (simp add: iloc_def Let_def)
qed

lemma iloc_neg_out:
  assumes "i = length xs + 1"
  shows "iloc (map f xs) (- int i) = Inl IndexError"
  using assms by (simp add: iloc_def Let_def)

lemma trim_loop_spec:
  "1 \<le> i \<Longrightarrow> i \<le> length df + 1 \<Longrightarrow>
   trim_loop df i u rd =
     (if length (trailing df i) = length df + 1 - i
      then (rd @ map (\<lambda>j. - int j) [i ..< length df + 2], Inl IndexError)
      else (rd @ map (\<lambda>j. - int j) [i ..< i + length (trailing df i) + 1],
            Inr (u @ map Prev_Day (trailing df i))))"
proof (induction df i u rd rule: trim_loop.induct)
  case (1 df i u rd)
  show ?case
  proof (cases "i = length df + 1")
    case True
    then have "trailing df i = []" by (simp add: trailing_def)
    moreover have "iloc (map Total_Dur df) (- int i) = Inl IndexError"
      using True by (rule iloc_neg_out)
    moreover have "[i ..< length df + 2] = [i]" using True by simp
    ultimately show ?thesis using True
      by (subst trim_loop.simps) (simp only: sum.case list.map, simp)
  next
    case False
    with "1.prems" have le: "i \<le> length df" by simp
    let ?r = "rev df ! (i - 1)"
    have dr: "drop (i - 1) (rev df) = ?r # drop i (rev df)"
      using le "1.prems"(1) Cons_nth_drop_Suc [of "i - 1" "rev df"] by simp
    show ?thesis
    proof (cases "isnull (Total_Dur ?r)")
      case True
      have tr: "trailing df i = ?r # trailing df (i + 1)"
        using True dr by (simp add: trailing_def)
      have IH: "trim_loop df (i + 1) (u @ [Prev_Day ?r]) (rd @ [- int i]) =
        (if length (trailing df (i + 1)) = length df + 1 - (i + 1)
         then ((rd @ [- int i]) @ map (\<lambda>j. - int j) [i + 1 ..< length df + 2], Inl IndexError)
         else ((rd @ [- int i]) @ map (\<lambda>j. - int j) [i + 1 ..< i + 1 + length (trailing df (i + 1)) + 1],
               Inr ((u @ [Prev_Day ?r]) @ map Prev_Day (trailing df (i + 1)))))"
        using "1.IH" [of "Total_Dur ?r" "Prev_Day ?r"] True le "1.prems"(1)
        by (simp add: iloc_neg_in)
      have up1: "[i ..< length df + 2] = i # [i + 1 ..< length df + 2]"
        using le by (simp add: upt_conv_Cons)
      have up2: "[i ..< i + length (trailing df i) + 1] = i # [i + 1 ..< i + 1 + length (trailing df (i + 1)) + 1]"
        by (subst upt_conv_Cons) (simp_all add: tr)
      show ?thesis
        apply (subst trim_loop.simps)
        apply (simp only: iloc_neg_in [OF "1.prems"(1) le] sum.case True le simp_thms if_True IH)
        apply (simp only: up1 up2)
        using le apply (auto simp: tr)
        done
    next
      case False
      have tr: "trailing df i = []" using False dr by (simp add: trailing_def)
      show ?thesis using False le "1.prems"(1)
        by (subst trim_loop.simps) (simp add: iloc_neg_in tr)
    qed
  qed
qed

section \<open>Facts about the merge\<close>

lemma set_setdiff1d: "set (setdiff1d a b) = set a - set b"
  by (auto simp: setdiff1d_def)

lemma distinct_setdiff1d: "distinct (setdiff1d a b)"
  by (simp add: setdiff1d_def)

lemma Prev_Day_new_missing_row: "Prev_Day (new_missing_row d) = d"
  by (simp add: new_missing_row_def)

lemma dates_fill_missing:
  "map Prev_Day (fill_missing new req) = map Prev_Day new @ setdiff1d req (map Prev_Day new)"
  by (simp add: fill_missing_def Let_def comp_def Prev_Day_new_missing_row)

lemma distinct_fill_missing:
  "distinct (map Prev_Day new) \<Longrightarrow> distinct (map Prev_Day (fill_missing new req))"
  by (auto simp: dates_fill_missing distinct_setdiff1d set_setdiff1d)

lemma dates_converter:
  "map Prev_Day (converter to_local data) = map (\<lambda>d. calendarDate d - 1) data"
  by (simp add: converter_def comp_def)

lemma distinct_converter:
  "distinct (map Prev_Day (converter to_local data)) = distinct (map calendarDate data)"
proof -
  have "map Prev_Day (converter to_local data) = map (\<lambda>x. x - 1) (map calendarDate data)"
    by (simp add: dates_converter comp_def)
  moreover have "inj (\<lambda>x::int. x - 1)" by (simp add: inj_def)
  ultimately show ?thesis by (simp only: distinct_map) (auto intro: inj_on_subset)
qed

lemma distinct_map_sort_key: "distinct (map f (sort_key f xs)) = distinct (map f xs)"
  by (induction xs) (auto simp: distinct_insort_key)

lemma set_merge_nights:
  "set (merge_nights a n) = set a \<union> {r \<in> set n. Prev_Day r \<notin> Prev_Day ` set a}"
  by (auto simp: merge_nights_def sort_values_Prev_Day_def)

lemma sorted_merge_nights: "sorted (map Prev_Day (merge_nights a n))"
  by (simp add: merge_nights_def sort_values_Prev_Day_def)

lemma distinct_merge_nights:
  assumes "distinct (map Prev_Day a)" "distinct (map Prev_Day n)"
  shows "distinct (map Prev_Day (merge_nights a n))"
proof -
  have "Prev_Day ` set a \<inter> Prev_Day ` {x \<in> set n. Prev_Day x \<notin> Prev_Day ` set a} = {}"
    by (auto simp: image_iff)
  with assms show ?thesis
    by (simp add: merge_nights_def sort_values_Prev_Day_def distinct_map_sort_key distinct_map_filter)
qed

lemma length_takeWhile_all: "(length (takeWhile P xs) = length xs) = (\<forall>x \<in> set xs. P x)"
proof (induction xs)
  case Nil
  show ?case by simp
next
  case (Cons x xs)
  have "length (takeWhile P xs) \<le> length xs" by (rule length_takeWhile_le)
  with Cons show ?case by auto
qed

lemma trim_unknown_eq:
  "trim_unknown df =
     (if \<forall>r \<in> set df. isnull (Total_Dur r) then Inl IndexError
      else Inr (filter (\<lambda>r. Prev_Day r \<notin> Prev_Day ` set (takeWhile (\<lambda>r. isnull (Total_Dur r)) (rev df))) df))"
proof -
  let ?t = "takeWhile (\<lambda>r. isnull (Total_Dur r)) (rev df)"
  have t: "trailing df 1 = ?t" "trailing df (Suc 0) = ?t" by (simp_all add: trailing_def)
  have "(length ?t = length df) = (\<forall>r \<in> set df. isnull (Total_Dur r))"
    using length_takeWhile_all [of "\<lambda>r. isnull (Total_Dur r)" "rev df"] by simp
  then show ?thesis
    using trim_loop_spec [of 1 df "[]" "[]"]
    by (simp add: trim_unknown_def t del: trim_loop.simps)
qed

lemma filter_sorted_map: "sorted (map f xs) \<Longrightarrow> sorted (map f (filter P xs))"
  by (induction xs) auto

lemma count_le_1_if_distinct:
  "distinct (map f xs) \<Longrightarrow> length (filter (\<lambda>r. f r = d) xs) \<le> 1"
  by (induction xs) (auto simp: filter_empty_conv image_iff)

lemma trim_unknown_Inr:
  assumes "trim_unknown df = Inr a"
  shows "a = filter (\<lambda>r. Prev_Day r \<notin> Prev_Day ` set (takeWhile (\<lambda>r. isnull (Total_Dur r)) (rev df))) df"
  using assms by (simp add: trim_unknown_eq split: if_splits)

lemma step3_archive_Inr:
  assumes "step3_archive to_local nights_df data req = Inr a"
  shows "a = filter (\<lambda>r. Prev_Day r \<notin> Prev_Day ` set (takeWhile (\<lambda>r. isnull (Total_Dur r))
               (rev (merge_nights nights_df (fill_missing (converter to_local data) req)))))
             (merge_nights nights_df (fill_missing (converter to_local data) req))"
  using assms unfolding step3_archive_def by (rule trim_unknown_Inr)

lemma sorted_rev_split:
  assumes "sorted (map f xs)" and "rev xs = t @ rest" and "x \<in> set rest" and "y \<in> set t"
  shows "f x \<le> f y"
proof -
  from assms(2) have "xs = rev rest @ rev t" by (metis rev_append rev_rev_ident)
  with assms(1) have "sorted (map f (rev rest) @ map f (rev t))" by simp
  with assms(3,4) show ?thesis by (auto simp: sorted_append)
qed

lemma in_range_in_merged:
  assumes "d \<in> set (daterange start_date end_date)"
  shows "d \<in> Prev_Day ` set (merge_nights nights_df
            (fill_missing (converter to_local data) (step0 start_date end_date nights_df)))"
proof (cases "d \<in> Prev_Day ` set nights_df")
  case True
  then show ?thesis by (auto simp: set_merge_nights)
next
  case False
  with assms have "d \<in> set (step0 start_date end_date nights_df)"
    by (simp add: step0_def Let_def set_setdiff1d)
  then have "d \<in> set (map Prev_Day (fill_missing (converter to_local data)
                 (step0 start_date end_date nights_df)))"
    unfolding dates_fill_missing by (auto simp: set_setdiff1d)
  then obtain r where "r \<in> set (fill_missing (converter to_local data)
                 (step0 start_date end_date nights_df))" "Prev_Day r = d" by auto
  with False show ?thesis unfolding set_merge_nights by (auto simp: image_iff)
qed

section \<open>Claims about the Archive Merger\<close>

text \<open>
  Claim C10. The trim loop terminates (it is a total function with a termination proof), and
  its condition reads the row at position \<open>-i\<close> before the bound is compared. When some row of
  the merged archive has a non-null total duration, the loop returns its list and every
  position it has read is in range. When every row has a null total duration (an empty archive
  included), the loop ends in \<^verbatim>\<open>IndexError\<close>, and the last position read is
  \<open>-(len + 1)\<close>, which is out of range.
\<close>

theorem trim_loop_in_range:
  "((\<exists>r \<in> set df. Total_Dur r \<noteq> None) \<longrightarrow>
      (\<exists>u. snd (trim_loop df 1 [] []) = Inr u) \<and>
      (\<forall>k \<in> set (fst (trim_loop df 1 [] [])). \<exists>v. iloc (map Total_Dur df) k = Inr v)) \<and>
   ((\<forall>r \<in> set df. Total_Dur r = None) \<longrightarrow>
      snd (trim_loop df 1 [] []) = Inl IndexError \<and>
      last (fst (trim_loop df 1 [] [])) = - (int (length df) + 1) \<and>
      iloc (map Total_Dur df) (- (int (length df) + 1)) = Inl IndexError)"
proof -
  let ?t = "takeWhile (\<lambda>r. isnull (Total_Dur r)) (rev df)"
  have t: "trailing df 1 = ?t" "trailing df (Suc 0) = ?t" by (simp_all add: trailing_def)
  have all: "(length ?t = length df) = (\<forall>r \<in> set df. Total_Dur r = None)"
    using length_takeWhile_all [of "\<lambda>r. isnull (Total_Dur r)" "rev df"] by (simp add: isnull_def)
  have spec: "trim_loop df 1 [] [] =
     (if length ?t = length df
      then (map (\<lambda>j. - int j) [1 ..< length df + 2], Inl IndexError)
      else (map (\<lambda>j. - int j) [1 ..< length ?t + 2], Inr (map Prev_Day ?t)))"
    using trim_loop_spec [of 1 df "[]" "[]"] by (simp add: t)
  have some: "\<exists>u. snd (trim_loop df 1 [] []) = Inr u"
    and reads: "\<forall>k \<in> set (fst (trim_loop df 1 [] [])). \<exists>v. iloc (map Total_Dur df) k = Inr v"
    if "\<exists>r \<in> set df. Total_Dur r \<noteq> None"
  proof -
    from that all have ne: "length ?t \<noteq> length df" by auto
    moreover have "length ?t \<le> length df"
      using length_takeWhile_le [of "\<lambda>r. isnull (Total_Dur r)" "rev df"] by simp
    ultimately have lt: "length ?t < length df" by simp
    from ne spec show "\<exists>u. snd (trim_loop df 1 [] []) = Inr u" by simp
    show "\<forall>k \<in> set (fst (trim_loop df 1 [] [])). \<exists>v. iloc (map Total_Dur df) k = Inr v"
    proof
      fix k assume "k \<in> set (fst (trim_loop df 1 [] []))"
      moreover have "fst (trim_loop df 1 [] []) = map (\<lambda>j. - int j) [1 ..< length ?t + 2]"
        unfolding spec using ne by (simp only: if_False fst_conv simp_thms)
      ultimately have "k \<in> (\<lambda>j. - int j) ` {1 ..< length ?t + 2}"
        by (simp only: set_map set_upt)
      then obtain j where j: "k = - int j" "1 \<le> j" "j < length ?t + 2" by auto
      with lt have "j \<le> length df" by simp
      with j show "\<exists>v. iloc (map Total_Dur df) k = Inr v"
        using iloc_neg_in [of j df Total_Dur] by simp
    qed
  qed
  have none: "snd (trim_loop df 1 [] []) = Inl IndexError \<and>
      last (fst (trim_loop df 1 [] [])) = - (int (length df) + 1) \<and>
      iloc (map Total_Dur df) (- (int (length df) + 1)) = Inl IndexError"
    if "\<forall>r \<in> set df. Total_Dur r = None"
  proof -
    from that all have eq: "length ?t = length df" by simp
    have conv: "- int (length df + 1) = - (int (length df) + 1)" by simp
    have s: "snd (trim_loop df 1 [] []) = Inl IndexError"
      unfolding spec using eq by (simp only: if_True snd_conv simp_thms)
    have f: "fst (trim_loop df 1 [] []) = map (\<lambda>j. - int j) [1 ..< length df + 2]"
      unfolding spec using eq by (simp only: if_True fst_conv simp_thms)
    have "[1 ..< length df + 2] = [1 ..< length df + 1] @ [length df + 1]" by simp
    then have "last (map (\<lambda>j. - int j) [1 ..< length df + 2]) = - int (length df + 1)"
      by (simp only: map_append last_snoc list.map)
    then have l: "last (fst (trim_loop df 1 [] [])) = - (int (length df) + 1)"
      by (simp only: f conv)
    have "iloc (map Total_Dur df) (- int (length df + 1)) = Inl IndexError"
      by (rule iloc_neg_out) simp
    then have i: "iloc (map Total_Dur df) (- (int (length df) + 1)) = Inl IndexError"
      by (simp only: conv)
    from s l i show ?thesis by (intro conjI)
  qed
  from some reads none show ?thesis by blast
qed

theorem trim_loop_in_range_witness:
  "Total_Dur (example_night 737425 (Some 27000)) \<noteq> None \<and>
   snd (trim_loop [example_night 737425 (Some 27000), example_night 737426 None] 1 [] [])
     = Inr [737426] \<and>
   fst (trim_loop [example_night 737425 (Some 27000), example_night 737426 None] 1 [] [])
     = [- 1, - 2] \<and>
   Total_Dur (example_night 737425 None) = None \<and> Total_Dur (example_night 737426 None) = None \<and>
   snd (trim_loop [example_night 737425 None, example_night 737426 None] 1 [] [])
     = Inl IndexError \<and>
   last (fst (trim_loop [example_night 737425 None, example_night 737426 None] 1 [] [])) = - 3"
proof -
  let ?A = "[example_night 737425 (Some 27000), example_night 737426 None]"
  let ?B = "[example_night 737425 None, example_night 737426 None]"
  have a: "\<exists>r \<in> set ?A. Total_Dur r \<noteq> None" by (simp add: example_night_def)
  have b: "\<forall>r \<in> set ?B. Total_Dur r = None" by (simp add: example_night_def)
  from a trim_loop_in_range [of ?A] have "\<exists>u. snd (trim_loop ?A 1 [] []) = Inr u" by blast
  moreover have "trim_loop ?A 1 [] [] = ([- 1, - 2], Inr [737426])" by code_simp
  moreover from b trim_loop_in_range [of ?B]
  have "snd (trim_loop ?B 1 [] []) = Inl IndexError \<and>
        last (fst (trim_loop ?B 1 [] [])) = - (int (length ?B) + 1)" by blast
  ultimately show ?thesis by (simp add: example_night_def)
qed

text \<open>
  Claim C1, as stated, fails: a batch in which the provider reports the same calendar date
  twice leaves two rows with one previous-day date in the archive, although the prior archive
  has unique dates. Only new rows that meet a date of the prior archive are dropped.
\<close>

theorem merge_duplicate_counterexample:
  "distinct (map Prev_Day [example_night 737425 (Some 28800)]) \<and>
   step3_archive to_utc [example_night 737425 (Some 28800)]
     [example_raw 737427 (Some 27000), example_raw 737427 (Some 3600)] [737426]
   = Inr [example_night 737425 (Some 28800), example_night 737426 (Some 27000),
          example_night 737426 (Some 3600)] \<and>
   \<not> distinct (map Prev_Day [example_night 737425 (Some 28800),
          example_night 737426 (Some 27000), example_night 737426 (Some 3600)])"
proof -
  have "step3_archive to_utc [example_night 737425 (Some 28800)]
     [example_raw 737427 (Some 27000), example_raw 737427 (Some 3600)] [737426]
   = Inr [example_night 737425 (Some 28800), example_night 737426 (Some 27000),
          example_night 737426 (Some 3600)]"
    by code_simp
  then show ?thesis by (simp add: example_night_def)
qed

text \<open>
  Claim C1, amended. For every prior archive with unique previous-day dates and every batch
  of provider records with pairwise different calendar dates, the merged archive has at most
  one row for every date and is sorted ascending by previous-day date, before the trim and,
  when \<^verbatim>\<open>step3\<close> gets past the trim, in the archive it stores.
\<close>

theorem merge_unique_sorted:
  assumes "distinct (map Prev_Day nights_df)" and "distinct (map calendarDate data)"
  shows "(\<forall>d. length (filter (\<lambda>r. Prev_Day r = d)
                 (merge_nights nights_df (fill_missing (converter to_local data) req))) \<le> 1) \<and>
         sorted (map Prev_Day (merge_nights nights_df (fill_missing (converter to_local data) req))) \<and>
         (\<forall>a. step3_archive to_local nights_df data req = Inr a \<longrightarrow>
              (\<forall>d. length (filter (\<lambda>r. Prev_Day r = d) a) \<le> 1) \<and> sorted (map Prev_Day a))"
proof -
  let ?m = "merge_nights nights_df (fill_missing (converter to_local data) req)"
  have "distinct (map Prev_Day (fill_missing (converter to_local data) req))"
    using assms(2) by (simp add: distinct_fill_missing distinct_converter)
  with assms(1) have dm: "distinct (map Prev_Day ?m)" by (rule distinct_merge_nights)
  have sm: "sorted (map Prev_Day ?m)" by (rule sorted_merge_nights)
  have "(\<forall>d. length (filter (\<lambda>r. Prev_Day r = d) a) \<le> 1) \<and> sorted (map Prev_Day a)"
    if "step3_archive to_local nights_df data req = Inr a" for a
  proof -
    from that obtain P where a: "a = filter P ?m" using step3_archive_Inr by blast
    from dm have "distinct (map Prev_Day a)" unfolding a by (rule distinct_map_filter)
    moreover from sm have "sorted (map Prev_Day a)" unfolding a by (rule filter_sorted_map)
    ultimately show ?thesis using count_le_1_if_distinct [of Prev_Day a] by blast
  qed
  with dm sm show ?thesis using count_le_1_if_distinct [of Prev_Day ?m] by blast
qed

theorem merge_unique_sorted_witness:
  "distinct (map Prev_Day [example_night 737425 (Some 28800)]) \<and>
   distinct (map calendarDate [example_raw 737427 (Some 27000), example_raw 737428 (Some 3600)]) \<and>
   step3_archive to_utc [example_night 737425 (Some 28800)]
     [example_raw 737427 (Some 27000), example_raw 737428 (Some 3600)] [737426, 737427]
   = Inr [example_night 737425 (Some 28800), example_night 737426 (Some 27000),
          example_night 737427 (Some 3600)] \<and>
   sorted (map Prev_Day [example_night 737425 (Some 28800), example_night 737426 (Some 27000),
          example_night 737427 (Some 3600)]) \<and>
   length (filter (\<lambda>r. Prev_Day r = 737426) [example_night 737425 (Some 28800),
          example_night 737426 (Some 27000), example_night 737427 (Some 3600)]) \<le> 1"
proof -
  let ?a = "[example_night 737425 (Some 28800)]"
  let ?data = "[example_raw 737427 (Some 27000), example_raw 737428 (Some 3600)]"
  let ?res = "[example_night 737425 (Some 28800), example_night 737426 (Some 27000),
          example_night 737427 (Some 3600)]"
  have h1: "distinct (map Prev_Day ?a)" by simp
  have h2: "distinct (map calendarDate ?data)" by (simp add: example_raw_def)
  have e: "step3_archive to_utc ?a ?data [737426, 737427] = Inr ?res" by code_simp
  from merge_unique_sorted [OF h1 h2, of to_utc "[737426, 737427]"] e
  have "(\<forall>d. length (filter (\<lambda>r. Prev_Day r = d) ?res) \<le> 1) \<and> sorted (map Prev_Day ?res)"
    by blast
  with h1 h2 e show ?thesis by blast
qed

text \<open>
  Claim C3, as stated, fails: the trim removes the trailing rows with a null total duration,
  so a requested date whose chunk was fetched can be absent from the stored archive. Here the
  range is 2020-01-01 to 2020-01-02, the provider has a night for the first date only, and the
  placeholder of the second date is trimmed.
\<close>

theorem gap_closure_counterexample:
  "737426 \<in> set (daterange 737425 737426) \<and>
   step3_archive to_utc [] [example_raw 737426 (Some 27000)] (step0 737425 737426 [])
   = Inr [example_night 737425 (Some 27000)] \<and>
   737426 \<notin> Prev_Day ` set [example_night 737425 (Some 27000)]"
proof -
  have "step3_archive to_utc [] [example_raw 737426 (Some 27000)] (step0 737425 737426 [])
   = Inr [example_night 737425 (Some 27000)]"
    by code_simp
  then show ?thesis by (simp add: daterange_def example_night_def)
qed

text \<open>
  Claim C3, amended. For every date \<open>d\<close> of the requested range, the merged archive before
  the trim has a row for \<open>d\<close>; when neither the prior archive nor the provider's answer has
  \<open>d\<close>, that row is the placeholder with all duration and time fields null. After the trim,
  \<open>d\<close> is absent from the stored archive only when it was trimmed: a row of \<open>d\<close> has a null
  total duration, and so has every row of a later date.
\<close>

theorem gap_closure_before_trim:
  assumes "d \<in> set (daterange start_date end_date)"
  shows "d \<in> Prev_Day ` set (merge_nights nights_df
            (fill_missing (converter to_local data) (step0 start_date end_date nights_df))) \<and>
         (d \<notin> Prev_Day ` set nights_df \<and> d \<notin> Prev_Day ` set (converter to_local data) \<longrightarrow>
            new_missing_row d \<in> set (merge_nights nights_df
              (fill_missing (converter to_local data) (step0 start_date end_date nights_df)))) \<and>
         (\<forall>a. step3_archive to_local nights_df data (step0 start_date end_date nights_df) = Inr a \<longrightarrow>
              d \<notin> Prev_Day ` set a \<longrightarrow>
              (\<exists>r \<in> set (merge_nights nights_df
                  (fill_missing (converter to_local data) (step0 start_date end_date nights_df))).
                  Prev_Day r = d \<and> Total_Dur r = None) \<and>
              (\<forall>r \<in> set (merge_nights nights_df
                  (fill_missing (converter to_local data) (step0 start_date end_date nights_df))).
                  d < Prev_Day r \<longrightarrow> Total_Dur r = None))"
proof -
  let ?req = "step0 start_date end_date nights_df"
  let ?new = "fill_missing (converter to_local data) ?req"
  let ?m = "merge_nights nights_df ?new"
  let ?null = "\<lambda>r::night. isnull (Total_Dur r)"
  have in_m: "d \<in> Prev_Day ` set ?m" using assms by (rule in_range_in_merged)
  have placeholder: "new_missing_row d \<in> set ?m"
    if "d \<notin> Prev_Day ` set nights_df" "d \<notin> Prev_Day ` set (converter to_local data)"
  proof -
    from that(1) assms have "d \<in> set ?req" by (simp add: step0_def Let_def set_setdiff1d)
    with that(2) have "new_missing_row d \<in> set ?new"
      by (simp add: fill_missing_def Let_def set_setdiff1d)
    with that(1) show ?thesis by (simp add: set_merge_nights Prev_Day_new_missing_row)
  qed
  have trimmed: "(\<exists>r \<in> set ?m. Prev_Day r = d \<and> Total_Dur r = None) \<and>
                 (\<forall>r \<in> set ?m. d < Prev_Day r \<longrightarrow> Total_Dur r = None)"
    if a: "step3_archive to_local nights_df data ?req = Inr a" and d: "d \<notin> Prev_Day ` set a" for a
  proof -
    let ?t = "takeWhile ?null (rev ?m)"
    from a have "a = filter (\<lambda>r. Prev_Day r \<notin> Prev_Day ` set ?t) ?m" by (rule step3_archive_Inr)
    with in_m d have "d \<in> Prev_Day ` set ?t" by auto
    then obtain r where r: "r \<in> set ?t" "Prev_Day r = d" by auto
    from r(1) have rm: "r \<in> set ?m" and rn: "Total_Dur r = None"
      using set_takeWhileD [of r ?null "rev ?m"] by (simp_all add: isnull_def)
    have split: "rev ?m = ?t @ dropWhile ?null (rev ?m)" by simp
    have "Total_Dur x = None" if x: "x \<in> set ?m" "d < Prev_Day x" for x
    proof (rule ccontr)
      assume nn: "Total_Dur x \<noteq> None"
      have "x \<notin> set ?t"
      proof
        assume "x \<in> set ?t"
        then have "?null x" by (rule set_takeWhileD [THEN conjunct2])
        with nn show False by (simp add: isnull_def)
      qed
      moreover from x(1) have "x \<in> set ?t \<union> set (dropWhile ?null (rev ?m))"
        using split by (metis set_append set_rev)
      ultimately have xd: "x \<in> set (dropWhile ?null (rev ?m))" by blast
      have "Prev_Day x \<le> Prev_Day r"
        using sorted_merge_nights split xd r(1) by (rule sorted_rev_split)
      with x(2) r(2) show False by simp
    qed
    with rm rn r(2) show ?thesis by blast
  qed
  from in_m placeholder trimmed show ?thesis by blast
qed

theorem gap_closure_before_trim_witness:
  "737426 \<in> set (daterange 737425 737426) \<and>
   737426 \<in> Prev_Day ` set (merge_nights [] (fill_missing
       (converter to_utc [example_raw 737426 (Some 27000)]) (step0 737425 737426 []))) \<and>
   new_missing_row 737426 \<in> set (merge_nights [] (fill_missing
       (converter to_utc [example_raw 737426 (Some 27000)]) (step0 737425 737426 [])))"
proof -
  have h: "737426 \<in> set (daterange 737425 737426)" by (simp add: daterange_def)
  have n: "737426 \<notin> Prev_Day ` set ([] :: night list) \<and>
           737426 \<notin> Prev_Day ` set (converter to_utc [example_raw 737426 (Some 27000)])"
    by (simp add: converter_def example_raw_def)
  from gap_closure_before_trim [OF h, of "[]" to_utc "[example_raw 737426 (Some 27000)]"] n h
  show ?thesis by blast
qed

section \<open>Claims about the Session Acquirer\<close>

lemma period_end_bounds:
  assumes "ds \<noteq> []"
  shows "Min (set ds) \<le> period_end_of ds \<and> period_end_of ds - Min (set ds) \<le> 31 \<and>
         period_end_of ds \<le> Max (set ds)"
proof -
  from assms have "Min (set ds) \<le> Max (set ds)" by simp
  then show ?thesis by (simp add: period_end_of_def Let_def max_period_delta_def)
qed

lemma step2_loop_inv:
  "step2_loop dl ds rq dt = (rq', res) \<Longrightarrow>
   \<exists>new. rq' = rq @ new \<and>
     (\<forall>p \<in> set new. fst p \<in> set ds \<and> fst p \<le> snd p \<and> snd p - fst p \<le> 31 \<and>
                    (\<exists>d \<in> set ds. snd p \<le> d)) \<and>
     sorted_wrt (\<lambda>a b. snd a < fst b) new \<and>
     (\<forall>js. res = Inr js \<longrightarrow>
        (\<exists>new_js. js = dt @ new_js \<and> map (\<lambda>p. dl (fst p) (snd p)) new = map Inr new_js) \<and>
        (\<forall>d \<in> set ds. \<exists>p \<in> set new. fst p \<le> d \<and> d \<le> snd p))"
proof (induction dl ds rq dt arbitrary: rq' res rule: step2_loop.induct)
  case (1 dl ds rq dt)
  show ?case
  proof (cases "ds = []")
    case True
    with "1.prems" have "rq' = rq" "res = Inr dt" by (simp_all add: step2_loop.simps)
    with True show ?thesis by simp
  next
    case False
    let ?ps = "Min (set ds)"
    let ?pe = "period_end_of ds"
    from False have ps_in: "?ps \<in> set ds" by simp
    from False have b: "?ps \<le> ?pe" "?pe - ?ps \<le> 31" "?pe \<le> Max (set ds)"
      using period_end_bounds by auto
    from False have "Max (set ds) \<in> set ds" by simp
    with b(3) have mx: "\<exists>d \<in> set ds. ?pe \<le> d" by blast
    show ?thesis
    proof (cases "dl ?ps ?pe")
      case (Inl e)
      with False "1.prems" have "rq' = rq @ [(?ps, ?pe)]" "res = Inl e"
        by (simp_all add: step2_loop.simps [of dl ds] Let_def)
      with ps_in b mx show ?thesis by simp
    next
      case (Inr json)
      let ?ds' = "filter (\<lambda>d. d > ?pe) ds"
      from Inr False "1.prems"
      have rec: "step2_loop dl ?ds' (rq @ [(?ps, ?pe)]) (dt @ [json]) = (rq', res)"
        by (simp add: step2_loop.simps [of dl ds] Let_def)
      from False have "0 < length ds" by simp
      from "1.IH" [OF this refl refl Inr rec]
      obtain new where new: "rq' = (rq @ [(?ps, ?pe)]) @ new"
        "\<forall>p \<in> set new. fst p \<in> set ?ds' \<and> fst p \<le> snd p \<and> snd p - fst p \<le> 31 \<and>
                          (\<exists>d \<in> set ?ds'. snd p \<le> d)"
        "sorted_wrt (\<lambda>a b. snd a < fst b) new"
        "\<forall>js. res = Inr js \<longrightarrow>
           (\<exists>new_js. js = (dt @ [json]) @ new_js \<and> map (\<lambda>p. dl (fst p) (snd p)) new = map Inr new_js) \<and>
           (\<forall>d \<in> set ?ds'. \<exists>p \<in> set new. fst p \<le> d \<and> d \<le> snd p)"
        by blast
      let ?new = "(?ps, ?pe) # new"
      have 1: "rq' = rq @ ?new" using new(1) by simp
      have 2: "\<forall>p \<in> set ?new. fst p \<in> set ds \<and> fst p \<le> snd p \<and> snd p - fst p \<le> 31 \<and>
                 (\<exists>d \<in> set ds. snd p \<le> d)"
        using new(2) ps_in b mx by auto
      have 3: "sorted_wrt (\<lambda>a b. snd a < fst b) ?new"
        using new(2,3) by auto
      have 4: "(\<exists>new_js. js = dt @ new_js \<and> map (\<lambda>p. dl (fst p) (snd p)) ?new = map Inr new_js) \<and>
               (\<forall>d \<in> set ds. \<exists>p \<in> set ?new. fst p \<le> d \<and> d \<le> snd p)"
        if js: "res = Inr js" for js
      proof
        from new(4) js obtain new_js where nj: "js = (dt @ [json]) @ new_js"
          "map (\<lambda>p. dl (fst p) (snd p)) new = map Inr new_js" by blast
        then have "js = dt @ (json # new_js) \<and>
            map (\<lambda>p. dl (fst p) (snd p)) ?new = map Inr (json # new_js)"
          using Inr by simp
        then show "\<exists>new_js. js = dt @ new_js \<and> map (\<lambda>p. dl (fst p) (snd p)) ?new = map Inr new_js"
          by blast
        show "\<forall>d \<in> set ds. \<exists>p \<in> set ?new. fst p \<le> d \<and> d \<le> snd p"
        proof
          fix d assume d: "d \<in> set ds"
          show "\<exists>p \<in> set ?new. fst p \<le> d \<and> d \<le> snd p"
          proof (cases "d > ?pe")
            case True
            with d have "d \<in> set ?ds'" by simp
            with new(4) js obtain p where "p \<in> set new" "fst p \<le> d \<and> d \<le> snd p" by blast
            then show ?thesis by auto
          next
            case False
            moreover from d have "?ps \<le> d" by simp
            ultimately show ?thesis by auto
          qed
        qed
      qed
      from 1 2 3 4 show ?thesis by blast
    qed
  qed
qed



section \<open>Claims about the time-of-day columns\<close>

lemma decimal_hours_bounds:
  assumes "ts_hour t < 24" "ts_minute t < 60"
  shows "0 \<le> decimal_hours t \<and> decimal_hours t < 24"
proof -
  from assms(1) have "ts_hour t \<le> 23" by simp
  then have "(of_nat (ts_hour t) :: rat) \<le> of_nat 23" by (rule of_nat_mono)
  then have H: "(of_nat (ts_hour t) :: rat) \<le> 23" by simp
  from assms(2) have "ts_minute t \<le> 59" by simp
  then have "(of_nat (ts_minute t) :: rat) \<le> of_nat 59" by (rule of_nat_mono)
  then have M: "(of_nat (ts_minute t) :: rat) \<le> 59" by simp
  have P: "0 \<le> (of_nat (ts_hour t) :: rat)" "0 \<le> (of_nat (ts_minute t) :: rat)" by simp_all
  have "decimal_hours t = of_nat (ts_hour t) + of_nat (ts_minute t) * (1 / 60)"
    by (simp add: decimal_hours_def)
  with H M P show ?thesis by linarith
qed

lemma make_pm_negative_range:
  assumes "0 \<le> x" "x < 24"
  shows "make_pm_negative x = (if x \<le> 12 then x else x - 24)"
    and "- 12 < make_pm_negative x" and "make_pm_negative x \<le> 12"
  using assms by (simp_all add: make_pm_negative_def)

text \<open>
  Claim C4, as stated, fails for \<^verbatim>\<open>Wake_ToD\<close>: the source subtracts 24 from the bed,
  sunrise and sunset values only. A night that ends at 13:30 local time is stored with the
  wake time of day \<open>27/2\<close>, outside \<open>(-12, 12]\<close>.
\<close>

theorem wake_tod_counterexample:
  "map Wake_Time (converter to_utc
      [(example_raw 737426 (Some 27000))\<lparr>sleepEndTimestampGMT := Some 1577971800000\<rparr>])
   = [Some \<lparr> ts_date = 737426, ts_hour = 13, ts_minute = 30, ts_second = 0 \<rparr>] \<and>
   map Wake_ToD (map garmin_row (converter to_utc
      [(example_raw 737426 (Some 27000))\<lparr>sleepEndTimestampGMT := Some 1577971800000\<rparr>]))
   = [Some (27 / 2)] \<and>
   \<not> (27 / 2 :: rat) \<le> 12"
proof -
  have "map Wake_Time (converter to_utc
      [(example_raw 737426 (Some 27000))\<lparr>sleepEndTimestampGMT := Some 1577971800000\<rparr>])
   = [Some \<lparr> ts_date = 737426, ts_hour = 13, ts_minute = 30, ts_second = 0 \<rparr>]"
    by code_simp
  moreover have "map Wake_ToD (map garmin_row (converter to_utc
      [(example_raw 737426 (Some 27000))\<lparr>sleepEndTimestampGMT := Some 1577971800000\<rparr>]))
   = [Some (27 / 2)]"
    by code_simp
  ultimately show ?thesis by simp
qed

text \<open>
  Claim C4, amended. For every clock time \<open>t\<close> (hour below 24, minute below 60), the value
  \<open>hour + minute/60\<close> lies in \<open>[0, 24)\<close> and its normalization equals it when it is at most
  12 and is 24 less otherwise, so the normalized value lies in \<open>(-12, 12]\<close>. The columns
  \<^verbatim>\<open>Bed_ToD\<close> (of both sources), \<^verbatim>\<open>Sunrise_ToD\<close> and \<^verbatim>\<open>Sunset_ToD\<close> hold the
  normalized value of their clock time; \<^verbatim>\<open>Wake_ToD\<close> (of both sources) holds
  \<open>hour + minute/60\<close> as it is.
\<close>

theorem time_of_day_columns:
  assumes "ts_hour t < 24" and "ts_minute t < 60"
  shows "make_pm_negative (decimal_hours t)
           = (if decimal_hours t \<le> 12 then decimal_hours t else decimal_hours t - 24) \<and>
         - 12 < make_pm_negative (decimal_hours t) \<and> make_pm_negative (decimal_hours t) \<le> 12 \<and>
         0 \<le> decimal_hours t \<and> decimal_hours t < 24 \<and>
         Bed_ToD (garmin_row n) = map_option (\<lambda>t. make_pm_negative (decimal_hours t)) (Bed_Time n) \<and>
         Wake_ToD (garmin_row n) = map_option decimal_hours (Wake_Time n) \<and>
         Bed_ToD (ms2_fill ambiguous r row)
           = map_option (\<lambda>t. make_pm_negative (decimal_hours t)) (Bed_Time row) \<and>
         Wake_ToD (ms2_fill ambiguous r row)
           = map_option decimal_hours (Wake_Time (ms2_fill ambiguous r row)) \<and>
         Sunrise_ToD (sun_row_of astimezone w_date response)
           = make_pm_negative (decimal_hours (Sunrise (sun_row_of astimezone w_date response))) \<and>
         Sunset_ToD (sun_row_of astimezone w_date response)
           = make_pm_negative (decimal_hours (Sunset (sun_row_of astimezone w_date response)))"
proof -
  from assms have b: "0 \<le> decimal_hours t" "decimal_hours t < 24"
    using decimal_hours_bounds by blast+
  note n = make_pm_negative_range [OF b]
  have g: "Bed_ToD (garmin_row n) = map_option (\<lambda>t. make_pm_negative (decimal_hours t)) (Bed_Time n)"
    "Wake_ToD (garmin_row n) = map_option decimal_hours (Wake_Time n)"
    by (simp_all add: garmin_row_def)
  have m: "Bed_ToD (ms2_fill ambiguous r row)
           = map_option (\<lambda>t. make_pm_negative (decimal_hours t)) (Bed_Time row)"
    "Wake_ToD (ms2_fill ambiguous r row)
           = map_option decimal_hours (Wake_Time (ms2_fill ambiguous r row))"
    by (simp_all add: ms2_fill_def)
  have s: "Sunrise_ToD (sun_row_of astimezone w_date response)
           = make_pm_negative (decimal_hours (Sunrise (sun_row_of astimezone w_date response)))"
     "Sunset_ToD (sun_row_of astimezone w_date response)
           = make_pm_negative (decimal_hours (Sunset (sun_row_of astimezone w_date response)))"
    by (simp_all add: sun_row_of_def Let_def)
  show ?thesis
    by (intro conjI) (fact n b g m s)+
qed

theorem time_of_day_columns_witness:
  "(22 :: nat) < 24 \<and> (30 :: nat) < 60 \<and>
   make_pm_negative (decimal_hours \<lparr> ts_date = 737425, ts_hour = 22, ts_minute = 30, ts_second = 0 \<rparr>)
     = - (3 / 2) \<and>
   - 12 < make_pm_negative
            (decimal_hours \<lparr> ts_date = 737425, ts_hour = 22, ts_minute = 30, ts_second = 0 \<rparr>)"
proof -
  let ?t = "\<lparr> ts_date = 737425, ts_hour = 22, ts_minute = 30, ts_second = 0 \<rparr>"
  have h: "ts_hour ?t < 24" "ts_minute ?t < 60" by simp_all
  have d: "decimal_hours ?t = 45 / 2" by (simp add: decimal_hours_def)
  from time_of_day_columns [OF h]
  have "make_pm_negative (decimal_hours ?t)
          = (if decimal_hours ?t \<le> 12 then decimal_hours ?t else decimal_hours ?t - 24)"
    and "- 12 < make_pm_negative (decimal_hours ?t)"
    by blast+
  then show ?thesis by (simp add: d)
qed

section \<open>Claims about the workday classification\<close>

lemma day_map_weekend:
  "is_weekend_bool (day_map (weekday d)) = (weekday d = 4 \<or> weekday d = 5)"
proof -
  have "0 \<le> weekday d" "weekday d < 7" by (simp_all add: weekday_def)
  then have "weekday d \<in> {0, 1, 2, 3, 4, 5, 6}" by auto
  then show ?thesis by (auto simp: day_map_def is_weekend_bool_def)
qed

lemma descr_row_simps:
  "Prev_Day (descr_row hs vac r) = Prev_Day r"
  "Day (descr_row hs vac r) = day_map (weekday (Prev_Day r))"
  "Is_Holiday (descr_row hs vac r) =
     (\<not> is_weekend_bool (day_map (weekday (Prev_Day r))) \<and> Prev_Day r \<in> set hs)"
  "Is_Workday (descr_row hs vac r) =
     (\<not> is_weekend_bool (day_map (weekday (Prev_Day r))) \<and>
      \<not> (Is_Holiday (descr_row hs vac r) \<or> Prev_Day r \<in> set vac))"
  by (simp_all add: descr_row_def Let_def)

lemma descr_row_weekend: "(weekday (Prev_Day (descr_row hs vac r)) = 4 \<or> weekday (Prev_Day (descr_row hs vac r)) = 5 \<longrightarrow>
         is_weekend_bool (Day (descr_row hs vac r)) \<and> \<not> Is_Workday (descr_row hs vac r) \<and> \<not> Is_Holiday (descr_row hs vac r)) \<and>
      (Prev_Day (descr_row hs vac r) \<in> set vac \<longrightarrow> \<not> Is_Workday (descr_row hs vac r))" 
  by (simp add: descr_row_simps day_map_weekend)
lemma all_descr_df_weekend:
  "(\<forall>row \<in> set (all_descr_df_of calendar_holidays end_date all_df).
      (weekday (Prev_Day row) = 4 \<or> weekday (Prev_Day row) = 5 \<longrightarrow>
         is_weekend_bool (Day row) \<and> \<not> Is_Workday row \<and> \<not> Is_Holiday row) \<and>
      (Prev_Day row \<in> set (vacay_of (adjust_holidays (calendar_holidays
           (Min (set (map Prev_Day all_df))) (Max (set (map Prev_Day all_df))))) end_date) \<longrightarrow>
         \<not> Is_Workday row))"
proof
  fix row assume "row \<in> set (all_descr_df_of calendar_holidays end_date all_df)"
  then obtain r where "row = descr_row (adjust_holidays (calendar_holidays
           (Min (set (map Prev_Day all_df))) (Max (set (map Prev_Day all_df)))))
         (vacay_of (adjust_holidays (calendar_holidays
           (Min (set (map Prev_Day all_df))) (Max (set (map Prev_Day all_df))))) end_date) r"
    unfolding all_descr_df_of_def Let_def by auto
  then show "(weekday (Prev_Day row) = 4 \<or> weekday (Prev_Day row) = 5 \<longrightarrow>
         is_weekend_bool (Day row) \<and> \<not> Is_Workday row \<and> \<not> Is_Holiday row) \<and>
      (Prev_Day row \<in> set (vacay_of (adjust_holidays (calendar_holidays
           (Min (set (map Prev_Day all_df))) (Max (set (map Prev_Day all_df))))) end_date) \<longrightarrow>
         \<not> Is_Workday row)"
    using descr_row_weekend by simp
qed

lemma layoff_in_vacay: "\<forall>d. 737360 \<le> d \<and> d \<le> end_date \<longrightarrow> d \<in> set (vacay_of holidays end_date)"
    by (simp add: vacay_of_def Let_def)

lemma in_concat_map: "n \<in> set ns \<Longrightarrow> x \<in> set (f n) \<Longrightarrow> x \<in> set (concat (map f ns))"
  by auto

lemma christmas_in_vacay:
  assumes h: "h \<in> set holidays" "month_of h = 12"
      and d: "d = h - 1 \<or> h + 1 \<le> d \<and> d \<le> h + 6"
  shows "d \<in> set (vacay_of holidays end_date)"
proof (cases "d = h - 1")
  case True
  with h have "d \<in> (\<lambda>h. h - 1) ` {h \<in> set holidays. month_of h = 12}" by auto
  then show ?thesis by (simp add: vacay_of_def Let_def)
next
  case False
  with d have n: "d - h \<in> set [1 .. 6]" by (simp only: set_upto) simp
  from h have "d \<in> set (map (\<lambda>h'. h' + (d - h)) (filter (\<lambda>h. month_of h = 12) holidays))"
    by (auto simp: image_iff)
  with n have "d \<in> set (concat (map (\<lambda>n. map (\<lambda>h. h + n) (filter (\<lambda>h. month_of h = 12) holidays)) [1 .. 6]))"
    by (rule in_concat_map)
  then show ?thesis unfolding vacay_of_def Let_def by (simp only: set_append Un_iff simp_thms)
qed

text \<open>
  Claim C5, as stated, fails for Sundays: the weekend of the source is Friday and Saturday
  (the nights before a day off), and a Sunday that is neither a holiday nor inside a
  non-workday window is a workday. Here 2019-03-03, a Sunday, with the leave period running
  to 2019-12-31.
\<close>

theorem sunday_workday_counterexample:
  "weekday 737121 = 6 \<and>
   map Day (all_descr_df_of no_holidays 737424 (example_all_df [737121])) = [''Sunday''] \<and>
   map Is_Workday (all_descr_df_of no_holidays 737424 (example_all_df [737121])) = [True]"
proof -
  have "weekday 737121 = 6" by code_simp
  moreover have
    "map Day (all_descr_df_of no_holidays 737424 (example_all_df [737121])) = [''Sunday'']"
    by code_simp
  moreover have
    "map Is_Workday (all_descr_df_of no_holidays 737424 (example_all_df [737121])) = [True]"
    by code_simp
  ultimately show ?thesis by simp
qed

text \<open>
  Claim C5, amended. In the description table, every row whose previous-day date falls on a
  Friday or a Saturday (weekday 4 or 5) has \<^verbatim>\<open>Is_Workday = False\<close>, even when that date
  is a holiday (its holiday flag is cleared as well), and every row whose previous-day date
  lies inside the non-workday windows has \<^verbatim>\<open>Is_Workday = False\<close>. The windows hold the
  leave period from 2019-10-28 to the configured end date, and, for each December holiday,
  the day before it and the six days after it.
\<close>

theorem workday_classification:
  "(\<forall>row \<in> set (all_descr_df_of calendar_holidays end_date all_df).
      (weekday (Prev_Day row) = 4 \<or> weekday (Prev_Day row) = 5 \<longrightarrow>
         is_weekend_bool (Day row) \<and> \<not> Is_Workday row \<and> \<not> Is_Holiday row) \<and>
      (Prev_Day row \<in> set (vacay_of (adjust_holidays (calendar_holidays
           (Min (set (map Prev_Day all_df))) (Max (set (map Prev_Day all_df))))) end_date) \<longrightarrow>
         \<not> Is_Workday row)) \<and>
   (\<forall>d. 737360 \<le> d \<and> d \<le> end_date \<longrightarrow> d \<in> set (vacay_of holidays end_date)) \<and>
   (\<forall>h \<in> set holidays. month_of h = 12 \<longrightarrow>
      (\<forall>d. (d = h - 1 \<or> h + 1 \<le> d \<and> d \<le> h + 6) \<longrightarrow> d \<in> set (vacay_of holidays end_date)))"
  using all_descr_df_weekend [of calendar_holidays end_date all_df]
    layoff_in_vacay [of end_date holidays] christmas_in_vacay [of _ holidays _ end_date]
  by blast

theorem workday_classification_witness:
  "map weekday [737021, 737052] = [4, 0] \<and>
   adjust_holidays (holidays_2018 737021 737052) = [] \<and>
   adjust_holidays (holidays_2018 737020 737055) = [737020, 737053, 737021] \<and>
   map Day (all_descr_df_of holidays_2018 737059
              (example_all_df [737020, 737021, 737052, 737053, 737055]))
     = [''Thursday'', ''Friday'', ''Monday'', ''Tuesday'', ''Thursday''] \<and>
   map Is_Workday (all_descr_df_of holidays_2018 737059
              (example_all_df [737020, 737021, 737052, 737053, 737055]))
     = [False, False, False, False, False]"
proof -
  let ?df = "example_all_df [737020, 737021, 737052, 737053, 737055]"
  let ?t = "all_descr_df_of holidays_2018 737059 ?df"
  have e: "map weekday [737021, 737052] = [4, 0]"
    "adjust_holidays (holidays_2018 737021 737052) = []"
    "adjust_holidays (holidays_2018 737020 737055) = [737020, 737053, 737021]"
    "map Day ?t = [''Thursday'', ''Friday'', ''Monday'', ''Tuesday'', ''Thursday'']"
    "map Is_Workday ?t = [False, False, False, False, False]"
    "map Prev_Day ?t = [737020, 737021, 737052, 737053, 737055]"
    by code_simp+
  from workday_classification [of holidays_2018 737059 ?df]
  have "\<forall>row \<in> set ?t. weekday (Prev_Day row) = 4 \<or> weekday (Prev_Day row) = 5 \<longrightarrow>
          \<not> Is_Workday row"
    by blast
  with e show ?thesis by simp
qed

section \<open>Claims about the Almanac Syncer\<close>

lemma step4_loop_abort:
  assumes "\<forall>d \<in> set pre. status_code (sun_api d) = 200" and "status_code (sun_api w) \<noteq> 200"
  shows "step4_loop sun_api astimezone (pre @ w # post) sun_df requested
           = (requested @ pre @ [w], Inl (Exception (status_code (sun_api w))))"
  using assms
  by (induction pre arbitrary: sun_df requested) (simp_all add: Let_def)

text \<open>
  Claim C7, as stated, fails: the exception leaves \<^verbatim>\<open>step4\<close> before \<^verbatim>\<open>to_pickle\<close>,
  the only write, so the rows appended for earlier dates of the run are not stored. Here the
  first date is answered with status 200 and the second with 500; there was no solar archive
  before the run and there is none after it.
\<close>

theorem step4_abort_counterexample:
  "status_code (example_sun_api 737426 737425) = 200 \<and>
   step4 (example_sun_api 737426) id None [737425, 737426, 737427]
   = (None, [737425, 737426], Inl (Exception 500))"
proof -
  have "step4 (example_sun_api 737426) id None [737425, 737426, 737427]
   = (None, [737425, 737426], Inl (Exception 500))"
    by code_simp
  then show ?thesis by (simp add: example_sun_api_def)
qed

text \<open>
  Claim C7, amended. When the almanac provider answers one of the missing dates with a
  non-success status, \<^verbatim>\<open>step4\<close> raises at the first such date: the dates before it and
  that date have been requested, the dates after it never are, and nothing is written, so the
  solar archive on storage is exactly what it was before the run (the rows appended for the
  earlier dates of the run are lost with it).
\<close>

theorem step4_abort:
  assumes "new_sun_dates_ls_of (case sun_pkl of None \<Rightarrow> [] | Some df \<Rightarrow> df) complete_dates_ls
             = pre @ w # post"
    and "\<forall>d \<in> set pre. status_code (sun_api d) = 200"
    and "status_code (sun_api w) \<noteq> 200"
  shows "step4 sun_api astimezone sun_pkl complete_dates_ls
           = (sun_pkl, pre @ [w], Inl (Exception (status_code (sun_api w))))"
  using step4_loop_abort [OF assms(2,3), of astimezone post _ "[]"] assms(1)
  by (simp add: step4_def Let_def)

theorem step4_abort_witness:
  "new_sun_dates_ls_of (case None of None \<Rightarrow> [] | Some df \<Rightarrow> df) [737425, 737426, 737427]
     = [737425] @ 737426 # [737427] \<and>
   status_code (example_sun_api 737426 737425) = 200 \<and>
   status_code (example_sun_api 737426 737426) \<noteq> 200 \<and>
   step4 (example_sun_api 737426) id None [737425, 737426, 737427]
     = (None, [737425] @ [737426], Inl (Exception (status_code (example_sun_api 737426 737426))))"
proof -
  have h1: "new_sun_dates_ls_of (case None of None \<Rightarrow> [] | Some df \<Rightarrow> df)
              [737425, 737426, 737427] = [737425] @ 737426 # [737427]"
    by (simp add: new_sun_dates_ls_of_def)
  have h2: "\<forall>d \<in> set [737425]. status_code (example_sun_api 737426 d) = 200"
    by (simp add: example_sun_api_def)
  have h3: "status_code (example_sun_api 737426 737426) \<noteq> 200"
    by (simp add: example_sun_api_def)
  from step4_abort [OF h1 h2 h3, of id] h1 h2 h3 show ?thesis by simp
qed

section \<open>Claims about the Secondary-Source Reconciler\<close>

lemma daytime_asleep_bool_all: "daytime_asleep_bool r = (Bed_ToD r \<noteq> None)"
proof (cases "Bed_ToD r")
  case None
  then show ?thesis by (simp add: daytime_asleep_bool_def)
next
  case (Some x)
  have "x > - 3 \<or> x < 7" by linarith
  with Some show ?thesis by (simp add: daytime_asleep_bool_def)
qed

text \<open>
  Claim C8. The source's daytime test \<^verbatim>\<open>(Bed_ToD > -3) | (Bed_ToD < 7)\<close> holds for every
  known time of day (see \<open>daytime_asleep_bool_all\<close>), so every legacy record below four
  hours with a known bed time is removed as a nap, whatever its bed time. Of the four records
  here (3 h from 02:00, 3 h from 23:00, 1 h from 14:00, 8 h from 22:30) only the last is
  retained: the two short night sleeps are excluded with the afternoon nap.
\<close>

theorem nap_filter_night_sleep:
  "map nap_bool (ms2_df_of never_ambiguous
      [example_sleep 737425 2 0 10800, example_sleep 737426 23 0 10800,
       example_sleep 737427 14 0 3600, example_sleep 737428 22 30 28800])
   = [True, True, True, False] \<and>
   map Bed_ToD (ms3_df_of (ms2_df_of never_ambiguous
      [example_sleep 737425 2 0 10800, example_sleep 737426 23 0 10800,
       example_sleep 737427 14 0 3600, example_sleep 737428 22 30 28800]))
   = [Some (- (3 / 2))]"
proof -
  have "map nap_bool (ms2_df_of never_ambiguous
      [example_sleep 737425 2 0 10800, example_sleep 737426 23 0 10800,
       example_sleep 737427 14 0 3600, example_sleep 737428 22 30 28800])
   = [True, True, True, False]"
    by code_simp
  moreover have "map Bed_ToD (ms3_df_of (ms2_df_of never_ambiguous
      [example_sleep 737425 2 0 10800, example_sleep 737426 23 0 10800,
       example_sleep 737427 14 0 3600, example_sleep 737428 22 30 28800]))
   = [Some (- (3 / 2))]"
    by code_simp
  ultimately show ?thesis by simp
qed

lemma adjust_row_eq: "i < length df \<Longrightarrow> adjust_row df i = df[i := moved_back (df ! i)]"
  by (simp add: adjust_row_def moved_back_def split: option.splits)

lemma adjust_fold:
  "k \<le> length df \<Longrightarrow>
   fold (\<lambda>i_row df. adjust_row df i_row) [0 ..< k] df = map moved_back (take k df) @ drop k df"
proof (induction k)
  case 0
  show ?case by simp
next
  case (Suc k)
  then have k: "k < length df" by simp
  let ?d = "map moved_back (take k df) @ drop k df"
  have len: "length (map moved_back (take k df)) = k" using k by simp
  have "?d ! k = df ! k" using k by (simp add: nth_append)
  moreover have "?d[k := moved_back (df ! k)] = map moved_back (take k df) @ (drop k df)[0 := moved_back (df ! k)]"
    using len by (simp add: list_update_append)
  moreover have "(drop k df)[0 := moved_back (df ! k)] = moved_back (df ! k) # drop (Suc k) df"
    using k by (simp add: Cons_nth_drop_Suc [symmetric])
  moreover have "take (Suc k) df = take k df @ [df ! k]" using k by (simp add: take_Suc_conv_app_nth)
  ultimately show ?case using Suc k by (simp add: adjust_row_eq)
qed

lemma adjust_loop_eq:
  "adjust_loop df = map moved_back (take (length df - 1) df) @ drop (length df - 1) df"
  unfolding adjust_loop_def by (rule adjust_fold) simp

text \<open>
  Claim C9. The adjusting loop runs over \<^verbatim>\<open>range(len(ms2_df)-1)\<close> and so never reaches
  the last row (see \<open>adjust_loop_eq\<close>). Two legacy records dated 2020-01-01 that both start
  at 01:30: the first is attributed to 2019-12-31, the last keeps its recorded date. A table
  of one such record is left as it is.
\<close>

theorem adjust_loop_last_row:
  "map Prev_Day (ms2_df_of never_ambiguous
      [example_sleep 737425 1 30 28800, example_sleep 737425 1 30 28800])
   = [737424, 737425] \<and>
   map Prev_Day (ms2_df_of never_ambiguous [example_sleep 737425 1 30 28800]) = [737425]"
proof -
  have "map Prev_Day (ms2_df_of never_ambiguous
      [example_sleep 737425 1 30 28800, example_sleep 737425 1 30 28800])
   = [737424, 737425]"
    by code_simp
  moreover have
    "map Prev_Day (ms2_df_of never_ambiguous [example_sleep 737425 1 30 28800]) = [737425]"
    by code_simp
  ultimately show ?thesis by simp
qed

section \<open>Claims about running the pipeline twice\<close>

lemma sort_key_append_above:
  assumes "sorted (map f xs)" and "\<forall>x \<in> set xs. \<forall>y \<in> set ys. f x \<le> f y"
  shows "sort_key f (xs @ ys) = xs @ sort_key f ys"
  using assms
proof (induction xs)
  case Nil
  show ?case by simp
next
  case (Cons x xs)
  then have IH: "sort_key f (xs @ ys) = xs @ sort_key f ys" by simp
  have "\<forall>z \<in> set (xs @ sort_key f ys). f x \<le> f z" using Cons.prems by auto
  then have "insort_key f x (xs @ sort_key f ys) = x # xs @ sort_key f ys"
    by (rule insort_is_Cons)
  with IH show ?case by simp
qed

text \<open>Second run: nothing new but null rows after the last archived night.\<close>

lemma trim_merge_nothing_new:
  assumes ne: "a1 \<noteq> []" and so: "sorted (map Prev_Day a1)"
    and last: "Total_Dur (last a1) \<noteq> None"
    and new: "\<forall>r \<in> set new. Prev_Day r \<notin> Prev_Day ` set a1 \<longrightarrow>
                Prev_Day (last a1) < Prev_Day r \<and> Total_Dur r = None"
  shows "trim_unknown (merge_nights a1 new) = Inr a1"
proof -
  let ?N = "filter (\<lambda>r. Prev_Day r \<notin> set (map Prev_Day a1)) new"
  let ?sN = "sort_key Prev_Day ?N"
  let ?null = "\<lambda>r::night. isnull (Total_Dur r)"
  have Nnull: "\<forall>r \<in> set ?N. ?null r" using new by (auto simp: isnull_def)
  have le_last: "\<forall>x \<in> set a1. Prev_Day x \<le> Prev_Day (last a1)"
  proof
    fix x assume "x \<in> set a1"
    from ne have "a1 = butlast a1 @ [last a1]" by simp
    then have "sorted (map Prev_Day (butlast a1) @ [Prev_Day (last a1)])"
      using so by (metis list.simps(8,9) map_append)
    moreover from \<open>x \<in> set a1\<close> ne have "x \<in> set (butlast a1) \<or> x = last a1"
      by (metis \<open>a1 = butlast a1 @ [last a1]\<close> Un_iff empty_iff empty_set set_ConsD set_append)
    ultimately show "Prev_Day x \<le> Prev_Day (last a1)" by (auto simp: sorted_append)
  qed
  have "\<forall>x \<in> set a1. \<forall>y \<in> set ?N. Prev_Day x \<le> Prev_Day y"
    using le_last new by fastforce
  with so have m: "merge_nights a1 new = a1 @ ?sN"
    using ne by (simp add: merge_nights_def sort_values_Prev_Day_def sort_key_append_above)
  have "takeWhile ?null (rev a1) = []"
    using last ne by (simp add: takeWhile_eq_Nil_iff hd_rev isnull_def)
  moreover have "\<And>r. r \<in> set (rev ?sN) \<Longrightarrow> ?null r" using Nnull by simp
  then have "takeWhile ?null (rev ?sN @ rev a1) = rev ?sN @ takeWhile ?null (rev a1)"
    by (rule takeWhile_append2)
  ultimately have t: "takeWhile ?null (rev (a1 @ ?sN)) = rev ?sN"
    by (simp only: rev_append append_Nil2)
  have ex: "\<not> (\<forall>r \<in> set (a1 @ ?sN). ?null r)"
    using ne last by (auto simp: isnull_def intro!: bexI [of _ "last a1"])
  define D where "D = Prev_Day ` set ?N"
  have D: "Prev_Day ` set (rev ?sN) = D" by (simp add: D_def)
  have dis: "d \<notin> D" if "d \<in> Prev_Day ` set a1" for d
  proof
    assume "d \<in> D"
    then obtain y where y: "y \<in> set ?N" "d = Prev_Day y" unfolding D_def by blast
    from y(1) have "Prev_Day y \<notin> set (map Prev_Day a1)" by simp
    with that y(2) show False by simp
  qed
  have f1: "filter (\<lambda>r. Prev_Day r \<notin> D) a1 = a1"
  proof (rule filter_True, intro ballI)
    fix x assume "x \<in> set a1"
    then have "Prev_Day x \<in> Prev_Day ` set a1" by (rule imageI)
    then show "Prev_Day x \<notin> D" by (rule dis)
  qed
  have "\<forall>x \<in> set ?sN. \<not> Prev_Day x \<notin> D" unfolding D_def by simp
  then have f2: "filter (\<lambda>r. Prev_Day r \<notin> D) ?sN = []"
    by (simp only: filter_empty_conv)
  have "trim_unknown (a1 @ ?sN) = Inr (filter (\<lambda>r. Prev_Day r \<notin> D) (a1 @ ?sN))"
    unfolding trim_unknown_eq t D using ex by (simp only: if_False)
  also have "filter (\<lambda>r. Prev_Day r \<notin> D) (a1 @ ?sN) = a1"
    by (simp only: filter_append f1 f2 append_Nil2)
  finally show ?thesis by (simp only: m)
qed

lemma sorted_le_last:
  assumes "sorted (map f xs)" and "x \<in> set xs"
  shows "f x \<le> f (last xs)"
proof -
  from assms(2) have ne: "xs \<noteq> []" by auto
  then have xs: "xs = butlast xs @ [last xs]" by simp
  have "sorted (map f (butlast xs @ [last xs]))" using assms(1) xs by simp
  then have "\<forall>y \<in> set (butlast xs). f y \<le> f (last xs)" by (simp add: sorted_append)
  moreover have "x \<in> set (butlast xs @ [last xs])" using assms(2) xs by simp
  then have "x \<in> set (butlast xs) \<or> x = last xs" by auto
  ultimately show ?thesis by auto
qed

text \<open>With unique dates the trim removes exactly the trailing null rows.\<close>

lemma trim_unknown_distinct:
  assumes d: "distinct (map Prev_Day m)" and t: "trim_unknown m = Inr a"
  shows "a = rev (dropWhile (\<lambda>r. isnull (Total_Dur r)) (rev m))"
    and "a \<noteq> []" and "Total_Dur (last a) \<noteq> None"
proof -
  let ?null = "\<lambda>r::night. isnull (Total_Dur r)"
  let ?t = "takeWhile ?null (rev m)"
  let ?rest = "dropWhile ?null (rev m)"
  have split: "rev m = ?t @ ?rest" by simp
  then have m: "m = rev ?rest @ rev ?t" by (metis rev_append rev_rev_ident)
  from t have a: "a = filter (\<lambda>r. Prev_Day r \<notin> Prev_Day ` set ?t) m" by (rule trim_unknown_Inr)
  from t have nn: "\<not> (\<forall>r \<in> set m. ?null r)" by (simp add: trim_unknown_eq split: if_splits)
  have "distinct (map Prev_Day (rev ?rest) @ map Prev_Day (rev ?t))"
    using d m by (metis map_append)
  then have dis: "Prev_Day ` set ?rest \<inter> Prev_Day ` set ?t = {}" by simp
  have f1: "filter (\<lambda>r. Prev_Day r \<notin> Prev_Day ` set ?t) (rev ?rest) = rev ?rest"
  proof (rule filter_True, intro ballI)
    fix x assume "x \<in> set (rev ?rest)"
    then have "Prev_Day x \<in> Prev_Day ` set ?rest" by simp
    with dis show "Prev_Day x \<notin> Prev_Day ` set ?t" by blast
  qed
  have "\<forall>x \<in> set (rev ?t). \<not> Prev_Day x \<notin> Prev_Day ` set ?t" by simp
  then have f2: "filter (\<lambda>r. Prev_Day r \<notin> Prev_Day ` set ?t) (rev ?t) = []"
    by (simp only: filter_empty_conv)
  have "filter (\<lambda>r. Prev_Day r \<notin> Prev_Day ` set ?t) (rev ?rest @ rev ?t) = rev ?rest"
    by (simp only: filter_append f1 f2 append_Nil2)
  with a m show ar: "a = rev ?rest" by simp
  from nn have rne: "?rest \<noteq> []" by (simp add: dropWhile_eq_Nil_conv)
  with ar show "a \<noteq> []" by simp
  from rne have "\<not> ?null (hd ?rest)" by (rule hd_dropWhile)
  moreover from rne ar have "last a = hd ?rest" by (simp add: last_rev)
  ultimately show "Total_Dur (last a) \<noteq> None" by (simp add: isnull_def)
qed

lemma trim_unknown_confirmed:
  assumes "distinct (map Prev_Day m)" and "sorted (map Prev_Day m)" and "trim_unknown m = Inr a"
  shows "confirmed_archive a"
proof -
  from assms(3) obtain P where a: "a = filter P m" using trim_unknown_Inr by blast
  have "sorted (map Prev_Day a)" unfolding a using assms(2) by (rule filter_sorted_map)
  moreover have "distinct (map Prev_Day a)" unfolding a using assms(1) by (rule distinct_map_filter)
  ultimately show ?thesis
    using trim_unknown_distinct(2,3) [OF assms(1,3)] by (simp add: confirmed_archive_def)
qed

text \<open>Rows of the merged frame in relation to the last row that is kept.\<close>

lemma trim_unknown_rows:
  assumes d: "distinct (map Prev_Day m)" and s: "sorted (map Prev_Day m)"
    and t: "trim_unknown m = Inr a" and x: "x \<in> set m"
  shows "Prev_Day x \<le> Prev_Day (last a) \<Longrightarrow> x \<in> set a"
    and "Prev_Day (last a) < Prev_Day x \<Longrightarrow> Total_Dur x = None \<and> x \<notin> set a"
    and "Total_Dur x \<noteq> None \<Longrightarrow> x \<in> set a"
proof -
  let ?null = "\<lambda>r::night. isnull (Total_Dur r)"
  let ?t = "takeWhile ?null (rev m)"
  let ?rest = "dropWhile ?null (rev m)"
  have split: "rev m = ?t @ ?rest" by simp
  note ar = trim_unknown_distinct(1) [OF d t]
  note ane = trim_unknown_distinct(2) [OF d t]
  have la: "last a \<in> set ?rest" using ar ane by (metis last_in_set set_rev)
  from x have "x \<in> set (rev m)" by simp
  then have xin: "x \<in> set ?t \<or> x \<in> set ?rest" by (metis split Un_iff set_append)
  have sa: "sorted (map Prev_Day a)"
    using trim_unknown_confirmed [OF d s t] by (simp add: confirmed_archive_def)
  have tnull: "Total_Dur y = None" if "y \<in> set ?t" for y
    using set_takeWhileD [OF that] by (simp add: isnull_def)
  have tnot: "y \<notin> set a" if y: "y \<in> set ?t" for y
  proof
    assume "y \<in> set a"
    then have "y \<in> set ?rest" using ar by simp
    with y have "Prev_Day y \<in> Prev_Day ` set ?t \<inter> Prev_Day ` set ?rest" by blast
    moreover have "distinct (map Prev_Day (rev m))" using d by (simp add: distinct_rev rev_map [symmetric])
    then have "distinct (map Prev_Day ?t @ map Prev_Day ?rest)" by (metis split map_append)
    then have "Prev_Day ` set ?t \<inter> Prev_Day ` set ?rest = {}" by simp
    ultimately show False by simp
  qed
  show "x \<in> set a" if le: "Prev_Day x \<le> Prev_Day (last a)"
  proof (cases "x \<in> set ?rest")
    case True
    then show ?thesis using ar by simp
  next
    case False
    with xin have xt: "x \<in> set ?t" by simp
    have "Prev_Day (last a) \<le> Prev_Day x" using s split la xt by (rule sorted_rev_split)
    with le have "Prev_Day x = Prev_Day (last a)" by simp
    moreover from la have "last a \<in> set m" by (metis set_dropWhileD set_rev)
    moreover have "inj_on Prev_Day (set m)" using d by (simp add: distinct_map)
    ultimately have "x = last a" using x by (auto dest: inj_onD)
    with ane show ?thesis by simp
  qed
  show "Total_Dur x = None \<and> x \<notin> set a" if gt: "Prev_Day (last a) < Prev_Day x"
  proof -
    have "x \<notin> set a"
    proof
      assume "x \<in> set a"
      with sa have "Prev_Day x \<le> Prev_Day (last a)" by (rule sorted_le_last)
      with gt show False by simp
    qed
    moreover from this ar xin have "x \<in> set ?t" by simp
    ultimately show ?thesis using tnull by simp
  qed
  show "x \<in> set a" if nn: "Total_Dur x \<noteq> None"
  proof -
    from nn tnull [of x] have "x \<notin> set ?t" by auto
    with xin ar show ?thesis by simp
  qed
qed

lemma step2_loop_provider_succeeds:
  "\<exists>js. snd (step2_loop (provider_of db) ds rq dt) = Inr js"
proof (induction "provider_of db" ds rq dt rule: step2_loop.induct)
  case (1 ds rq dt)
  show ?case
  proof (cases "ds = []")
    case True
    then show ?thesis by (simp add: step2_loop.simps)
  next
    case False
    obtain json where json: "provider_of db (Min (set ds)) (period_end_of ds) = Inr json"
      by (simp add: provider_of_def)
    from False have "0 < length ds" by simp
    from "1.hyps" [OF this refl refl json] False json show ?thesis
      by (simp add: step2_loop.simps [of "provider_of db" ds] Let_def)
  qed
qed

lemma step2_provider:
  obtains rq data where "step2 (provider_of db) ds = (rq, Inr data)"
    and "\<forall>p \<in> set rq. fst p \<in> set ds \<and> fst p \<le> snd p \<and> (\<exists>d \<in> set ds. snd p \<le> d)"
    and "sorted_wrt (\<lambda>a b. snd a < fst b) rq"
    and "\<forall>d \<in> set ds. \<exists>p \<in> set rq. fst p \<le> d \<and> d \<le> snd p"
    and "data = concat (map (\<lambda>p. filter (in_period p) db) rq)"
proof -
  obtain rq res where l: "step2_loop (provider_of db) ds [] [] = (rq, res)"
    by (cases "step2_loop (provider_of db) ds [] []") auto
  with step2_loop_provider_succeeds [of db ds "[]" "[]"] obtain js where res: "res = Inr js"
    by auto
  from step2_loop_inv [OF l] res
  have inv: "\<forall>p \<in> set rq. fst p \<in> set ds \<and> fst p \<le> snd p \<and> snd p - fst p \<le> 31 \<and>
                (\<exists>d \<in> set ds. snd p \<le> d)"
    "sorted_wrt (\<lambda>a b. snd a < fst b) rq"
    "map (\<lambda>p. provider_of db (fst p) (snd p)) rq = map Inr js"
    "\<forall>d \<in> set ds. \<exists>p \<in> set rq. fst p \<le> d \<and> d \<le> snd p"
    by auto
  have "map (\<lambda>p. provider_of db (fst p) (snd p)) rq = map Inr (map (\<lambda>p. filter (in_period p) db) rq)"
    by (simp add: provider_of_def in_period_def [abs_def])
  with inv(3) have "map Inr js = (map Inr (map (\<lambda>p. filter (in_period p) db) rq) :: (error + raw_night list) list)"
    by simp
  then have js: "js = map (\<lambda>p. filter (in_period p) db) rq"
    by (simp only: inj_map_eq_map [OF inj_Inr])
  have "step2 (provider_of db) ds = (rq, Inr (concat js))"
    by (simp add: step2_def l res)
  with inv js that show thesis by blast
qed

lemma distinct_chunk_answers:
  assumes "sorted_wrt (\<lambda>a b. snd a < fst b) rq" and "distinct (map calendarDate db)"
  shows "distinct (map calendarDate (concat (map (\<lambda>p. filter (in_period p) db) rq)))"
  using assms(1)
proof (induction rq)
  case Nil
  show ?case by simp
next
  case (Cons p rq)
  then have IH: "distinct (map calendarDate (concat (map (\<lambda>p. filter (in_period p) db) rq)))"
    and later: "\<forall>q \<in> set rq. snd p < fst q" by simp_all
  have here: "distinct (map calendarDate (filter (in_period p) db))"
    using assms(2) by (rule distinct_map_filter)
  have "calendarDate r \<noteq> calendarDate r'"
    if "r \<in> set (filter (in_period p) db)"
      and "r' \<in> set (concat (map (\<lambda>p. filter (in_period p) db) rq))" for r r'
  proof -
    from that(2) obtain q where "q \<in> set rq" "in_period q r'" by auto
    with later have "snd p < calendarDate r'" by (auto simp: in_period_def)
    moreover from that(1) have "calendarDate r \<le> snd p" by (simp add: in_period_def)
    ultimately show ?thesis by simp
  qed
  then have "calendarDate ` set (filter (in_period p) db) \<inter>
             calendarDate ` set (concat (map (\<lambda>p. filter (in_period p) db) rq)) = {}"
    by blast
  with IH here show ?case by simp
qed

lemma converter_row:
  "x \<in> set (converter to_local data) \<Longrightarrow>
     \<exists>r \<in> set data. Prev_Day x = calendarDate r - 1 \<and> Total_Dur x = sleepTimeSeconds r"
  by (auto simp: converter_def)

lemma converter_row_of:
  "r \<in> set data \<Longrightarrow>
     \<exists>x \<in> set (converter to_local data).
        Prev_Day x = calendarDate r - 1 \<and> Total_Dur x = sleepTimeSeconds r"
  by (force simp: converter_def)

lemma set_daterange: "set (daterange s e) = {s} \<union> {s + 1 .. e}"
  by (simp add: daterange_def)

lemma daterange_convex:
  assumes "a \<in> set (daterange s e)" "b \<in> set (daterange s e)" "a \<le> c" "c \<le> b"
  shows "c \<in> set (daterange s e)"
  using assms unfolding set_daterange by auto

lemma set_step0:
  "set (step0 s e a) = (if a = [] then set (daterange s e)
                        else set (daterange s e) - Prev_Day ` set a)"
  by (simp add: step0_def Let_def set_setdiff1d)

lemma fill_missing_rows:
  assumes "x \<in> set (fill_missing new req)"
  shows "x \<in> set new \<or> (\<exists>d \<in> set req. x = new_missing_row d)"
  using assms by (auto simp: fill_missing_def Let_def set_setdiff1d)

lemma archive_idempotent:
  assumes inv0: "a0 = [] \<or> confirmed_archive a0"
    and db: "distinct (map calendarDate db)"
    and d1: "snd (step2 (provider_of db) (step0 s e a0)) = Inr data1"
    and r1: "step3_archive to_local a0 data1 (step0 s e a0) = Inr a1"
    and d2: "snd (step2 (provider_of db) (step0 s e a1)) = Inr data2"
  shows "step3_archive to_local a1 data2 (step0 s e a1) = Inr a1"
proof -
  let ?req1 = "step0 s e a0"
  let ?new1 = "fill_missing (converter to_local data1) ?req1"
  let ?m1 = "merge_nights a0 ?new1"
  let ?req2 = "step0 s e a1"
  let ?new2 = "fill_missing (converter to_local data2) ?req2"
  let ?M = "Prev_Day (last a1)"
  \<comment> \<open>the first run\<close>
  obtain rq1 dt1 where s1: "step2 (provider_of db) ?req1 = (rq1, Inr dt1)"
    and cover1: "\<forall>d \<in> set ?req1. \<exists>p \<in> set rq1. fst p \<le> d \<and> d \<le> snd p"
    and sw1: "sorted_wrt (\<lambda>a b. snd a < fst b) rq1"
    and dt1: "dt1 = concat (map (\<lambda>p. filter (in_period p) db) rq1)"
    by (rule step2_provider [of db ?req1]) blast
  from s1 d1 have data1: "data1 = concat (map (\<lambda>p. filter (in_period p) db) rq1)"
    by (simp add: dt1)
  have "distinct (map calendarDate data1)"
    unfolding data1 using sw1 db by (rule distinct_chunk_answers)
  then have "distinct (map Prev_Day ?new1)"
    by (simp add: distinct_fill_missing distinct_converter)
  moreover from inv0 have da0: "distinct (map Prev_Day a0)"
    by (auto simp: confirmed_archive_def)
  ultimately have dm: "distinct (map Prev_Day ?m1)" by (simp add: distinct_merge_nights)
  have sm: "sorted (map Prev_Day ?m1)" by (rule sorted_merge_nights)
  from r1 have t1: "trim_unknown ?m1 = Inr a1" by (simp add: step3_archive_def)
  from dm sm t1 have ca1: "confirmed_archive a1" by (rule trim_unknown_confirmed)
  then have ne1: "a1 \<noteq> []" and so1: "sorted (map Prev_Day a1)"
    and last1: "Total_Dur (last a1) \<noteq> None"
    by (simp_all add: confirmed_archive_def)
  note rows = trim_unknown_rows [OF dm sm t1]
  \<comment> \<open>the prior archive ends no later than the new one\<close>
  have a0_le: "Prev_Day x \<le> ?M" if x: "x \<in> set a0" for x
  proof -
    from x have ne0: "a0 \<noteq> []" by auto
    with inv0 have c0: "confirmed_archive a0" by simp
    then have "sorted (map Prev_Day a0)" by (simp add: confirmed_archive_def)
    then have "Prev_Day x \<le> Prev_Day (last a0)" using x by (rule sorted_le_last)
    moreover from ne0 have "last a0 \<in> set ?m1" by (simp add: set_merge_nights)
    then have "last a0 \<in> set a1"
      using c0 by (intro rows(3)) (simp_all add: confirmed_archive_def)
    with so1 have "Prev_Day (last a0) \<le> ?M" by (rule sorted_le_last)
    ultimately show ?thesis by simp
  qed
  \<comment> \<open>every date of the range up to the last kept night is archived\<close>
  have covered: "d \<in> Prev_Day ` set a1" if "d \<in> set (daterange s e)" "d \<le> ?M" for d
  proof -
    from that(1) have "d \<in> Prev_Day ` set ?m1" by (rule in_range_in_merged)
    then obtain x where x: "x \<in> set ?m1" "Prev_Day x = d" by auto
    with that(2) have "x \<in> set a1" by (intro rows(1)) simp_all
    with x(2) show ?thesis by auto
  qed
  have req2: "d \<in> set (daterange s e) \<and> ?M < d" if "d \<in> set ?req2" for d
  proof -
    from that ne1 have r: "d \<in> set (daterange s e)" and n: "d \<notin> Prev_Day ` set a1"
      by (simp_all add: set_step0)
    from covered [OF r] n have "\<not> d \<le> ?M" by blast
    with r show ?thesis by simp
  qed
  \<comment> \<open>the second run\<close>
  obtain rq2 dt2 where s2: "step2 (provider_of db) ?req2 = (rq2, Inr dt2)"
    and rq2: "\<forall>p \<in> set rq2. fst p \<in> set ?req2 \<and> fst p \<le> snd p \<and> (\<exists>d \<in> set ?req2. snd p \<le> d)"
    and dt2: "dt2 = concat (map (\<lambda>p. filter (in_period p) db) rq2)"
    by (rule step2_provider [of db ?req2]) blast
  from s2 d2 have data2: "data2 = concat (map (\<lambda>p. filter (in_period p) db) rq2)"
    by (simp add: dt2)
  have fetched: "?M < calendarDate r - 1 \<and> sleepTimeSeconds r = None"
    if r: "r \<in> set data2" and n: "calendarDate r - 1 \<notin> Prev_Day ` set a1" for r
  proof -
    let ?c = "calendarDate r"
    from r obtain p where p: "p \<in> set rq2" "r \<in> set db" "in_period p r"
      unfolding data2 by auto
    from rq2 p(1) obtain d where d: "fst p \<in> set ?req2" "d \<in> set ?req2" "snd p \<le> d" by blast
    from p(3) d(3) have between: "fst p \<le> ?c" "?c \<le> d" by (simp_all add: in_period_def)
    from req2 [OF d(1)] req2 [OF d(2)] between
    have c_range: "?c \<in> set (daterange s e)" by (blast intro: daterange_convex)
    from req2 [OF d(1)] between(1) have c_gt: "?M < ?c" by simp
    from ne1 have "?M \<in> Prev_Day ` set a1" by simp
    with n have "?c - 1 \<noteq> ?M" by metis
    with c_gt have gt: "?M < ?c - 1" by simp
    have c_not0: "?c \<notin> Prev_Day ` set a0" and c1_not0: "?c - 1 \<notin> Prev_Day ` set a0"
      using a0_le c_gt gt by fastforce+
    from c_range c_not0 have "?c \<in> set ?req1" by (simp add: set_step0)
    with cover1 obtain p1 where "p1 \<in> set rq1" "fst p1 \<le> ?c" "?c \<le> snd p1" by blast
    with p(2) have "r \<in> set data1" unfolding data1 by (auto simp: in_period_def)
    then obtain x where x: "x \<in> set (converter to_local data1)"
      "Prev_Day x = ?c - 1" "Total_Dur x = sleepTimeSeconds r"
      using converter_row_of by blast
    from x(1) have "x \<in> set ?new1" by (simp add: fill_missing_def Let_def)
    with x(2) c1_not0 have "x \<in> set ?m1" by (simp add: set_merge_nights)
    moreover from gt x(2) have "?M < Prev_Day x" by simp
    ultimately have "Total_Dur x = None" using rows(2) by blast
    with x(3) gt show ?thesis by simp
  qed
  have "\<forall>x \<in> set ?new2. Prev_Day x \<notin> Prev_Day ` set a1 \<longrightarrow> ?M < Prev_Day x \<and> Total_Dur x = None"
  proof (intro ballI impI)
    fix x assume x: "x \<in> set ?new2" and n: "Prev_Day x \<notin> Prev_Day ` set a1"
    from x consider "x \<in> set (converter to_local data2)"
      | d where "d \<in> set ?req2" "x = new_missing_row d"
      using fill_missing_rows by blast
    then show "?M < Prev_Day x \<and> Total_Dur x = None"
    proof cases
      case 1
      then obtain r where "r \<in> set data2" "Prev_Day x = calendarDate r - 1"
        "Total_Dur x = sleepTimeSeconds r"
        using converter_row by blast
      with fetched [of r] n show ?thesis by simp
    next
      case 2
      with req2 [of d] show ?thesis by (simp add: new_missing_row_def)
    qed
  qed
  with ne1 so1 last1 have "trim_unknown (merge_nights a1 ?new2) = Inr a1"
    by (rule trim_merge_nothing_new)
  then show ?thesis by (simp add: step3_archive_def)
qed

lemma Date_sun_row_of: "Date (sun_row_of astimezone w_date response) = w_date"
  by (simp add: sun_row_of_def Let_def)

lemma step4_loop_success:
  "step4_loop sun_api astimezone ds sun_df requested = (requested', Inr sun_df') \<Longrightarrow>
   requested' = requested @ ds \<and>
   sun_df' = sun_df @ map (\<lambda>w_date. sun_row_of astimezone w_date (sun_api w_date)) ds"
proof (induction ds arbitrary: sun_df requested)
  case Nil
  then show ?case by simp
next
  case (Cons a ds)
  from Cons.prems have ok: "status_code (sun_api a) = 200"
    by (auto simp: Let_def split: if_splits)
  with Cons.prems
  have "step4_loop sun_api astimezone ds (sun_df @ [sun_row_of astimezone a (sun_api a)])
          (requested @ [a]) = (requested', Inr sun_df')"
    by (simp add: Let_def)
  from Cons.IH [OF this] show ?case by simp
qed

lemma step4_again:
  assumes "step4 sun_api astimezone sun_pkl complete_dates_ls = (sun_pkl', requested, Inr sun_df)"
  shows "sun_pkl' = Some sun_df"
    and "step4 sun_api astimezone (Some sun_df) complete_dates_ls = (Some sun_df, [], Inr sun_df)"
proof -
  let ?old = "case sun_pkl of None \<Rightarrow> [] | Some df \<Rightarrow> df"
  let ?new = "new_sun_dates_ls_of ?old complete_dates_ls"
  from assms have l: "step4_loop sun_api astimezone ?new ?old [] = (requested, Inr sun_df)"
    and p: "sun_pkl' = Some sun_df"
    by (auto simp: step4_def Let_def split: prod.splits sum.splits)
  from p show "sun_pkl' = Some sun_df" .
  from step4_loop_success [OF l]
  have df: "sun_df = ?old @ map (\<lambda>w_date. sun_row_of astimezone w_date (sun_api w_date)) ?new"
    by simp
  have dates: "Date ` set sun_df = Date ` set ?old \<union> set ?new"
  proof -
    have "Date ` set (map (\<lambda>w_date. sun_row_of astimezone w_date (sun_api w_date)) ?new) = set ?new"
      by (simp add: image_image Date_sun_row_of)
    then have "Date ` set (?old @ map (\<lambda>w_date. sun_row_of astimezone w_date (sun_api w_date)) ?new)
               = Date ` set ?old \<union> set ?new"
      by (simp only: set_append image_Un)
    with df show ?thesis by simp
  qed
  have "new_sun_dates_ls_of sun_df complete_dates_ls = []"
  proof (cases "?old = []")
    case True
    then have n: "?new = complete_dates_ls" by (simp add: new_sun_dates_ls_of_def)
    show ?thesis
    proof (cases "complete_dates_ls = []")
      case True
      then show ?thesis by (simp add: new_sun_dates_ls_of_def)
    next
      case False
      with df n have "sun_df \<noteq> []" by simp
      moreover from dates n True have "set complete_dates_ls \<subseteq> Date ` set sun_df" by simp
      ultimately show ?thesis by (auto simp: new_sun_dates_ls_of_def filter_empty_conv)
    qed
  next
    case False
    then have n: "?new = filter (\<lambda>n. n \<notin> set (map Date ?old)) complete_dates_ls"
      by (simp add: new_sun_dates_ls_of_def)
    from False df have "sun_df \<noteq> []" by simp
    moreover have "set complete_dates_ls \<subseteq> Date ` set sun_df"
      unfolding dates n by auto
    ultimately show ?thesis by (auto simp: new_sun_dates_ls_of_def filter_empty_conv)
  qed
  then show "step4 sun_api astimezone (Some sun_df) complete_dates_ls = (Some sun_df, [], Inr sun_df)"
    by (simp add: step4_def)
qed

text \<open>
  Claim C2, as stated, fails in its account of the second run: the Gap Detector does not
  find the missing set empty. The first run trims the trailing rows with a null total
  duration, the placeholder of the last date of the range among them, so their dates are
  missing again. Here the range is 2020-01-01 to 2020-01-03 and the provider has the nights
  of the first two dates; after the first run the third date is still missing.
\<close>

theorem sync_missing_again_counterexample:
  "snd (sync example_world no_files) = Inr () \<and>
   map Prev_Day (read_nights (fst (sync example_world no_files))) = [737425, 737426] \<and>
   step0 (cfg_start_date example_world) (cfg_end_date example_world)
     (read_nights (fst (sync example_world no_files))) = [737427]"
proof -
  have "snd (sync example_world no_files) = Inr ()" by code_simp
  moreover have
    "map Prev_Day (read_nights (fst (sync example_world no_files))) = [737425, 737426]"
    by code_simp
  moreover have "step0 (cfg_start_date example_world) (cfg_end_date example_world)
     (read_nights (fst (sync example_world no_files))) = [737427]"
    by code_simp
  ultimately show ?thesis by simp
qed

text \<open>
  Claim C2, amended. Let the provider answer every request from one fixed set of records with
  pairwise different calendar dates, and let the archive before the first run be absent,
  empty, or as a run leaves it. When a run of the steps 0, 2, 3 and 4 succeeds, a second run
  in the same world succeeds and leaves the storage (primary archive, description table,
  event table, solar table) equal to what the first run left. Tables are compared as values,
  not as pickled bytes.
\<close>

theorem sync_twice:
  assumes dl: "cfg_download_to_json w = provider_of db"
    and db: "distinct (map calendarDate db)"
    and inv0: "read_nights st0 = [] \<or> confirmed_archive (read_nights st0)"
    and run1: "sync w st0 = (st1, Inr ())"
  shows "sync w st1 = (st1, Inr ())"
proof -
  let ?s = "cfg_start_date w" and ?e = "cfg_end_date w"
  let ?a0 = "read_nights st0"
  let ?req1 = "step0 ?s ?e ?a0"
  let ?ms3 = "ms3_df_of (ms2_df_of (cfg_ambiguous w) (cfg_csv w))"
  from run1 obtain data1 st3 cd sp rq sdf where
    d1: "snd (step2 (provider_of db) ?req1) = Inr data1"
    and s3: "step3 (cfg_to_local w) (cfg_ambiguous w) (cfg_calendar_holidays w) ?e (cfg_csv w)
               st0 ?a0 data1 ?req1 = (st3, Inr cd)"
    and s4: "step4 (cfg_sun_api w) (cfg_astimezone w) (sun_pkl_fn st3) cd = (sp, rq, Inr sdf)"
    and st1: "st1 = st3\<lparr>sun_pkl_fn := sp\<rparr>"
    unfolding sync_def Let_def dl
    by (auto split: sum.splits prod.splits)
  from s3 obtain a1 all_df where
    r1: "step3_archive (cfg_to_local w) ?a0 data1 ?req1 = Inr a1"
    and all: "all_df_of (map garmin_row a1) ?ms3 = Inr (all_df, cd)"
    and st3: "st3 = st0\<lparr>garmin_results_pkl_fn := Some a1,
                all_descr_results_fn := Some (all_descr_df_of (cfg_calendar_holidays w) ?e all_df),
                all_event_results_fn := Some (all_event_df_of all_df)\<rparr>"
    unfolding step3_def Let_def
    by (auto split: sum.splits prod.splits)
  note sp = step4_again [OF s4]
  from st1 st3 sp(1) have rn: "read_nights st1 = a1" by (simp add: read_nights_def)
  let ?req2 = "step0 ?s ?e a1"
  obtain rq2 data2 where "step2 (provider_of db) ?req2 = (rq2, Inr data2)"
    by (rule step2_provider [of db ?req2])
  then have d2: "snd (step2 (provider_of db) ?req2) = Inr data2" by simp
  from inv0 db d1 r1 d2
  have r2: "step3_archive (cfg_to_local w) a1 data2 ?req2 = Inr a1"
    by (rule archive_idempotent)
  have same3: "st1\<lparr>garmin_results_pkl_fn := Some a1,
                all_descr_results_fn := Some (all_descr_df_of (cfg_calendar_holidays w) ?e all_df),
                all_event_results_fn := Some (all_event_df_of all_df)\<rparr> = st1"
    using st1 st3 by simp
  have s3': "step3 (cfg_to_local w) (cfg_ambiguous w) (cfg_calendar_holidays w) ?e (cfg_csv w)
               st1 a1 data2 ?req2 = (st1, Inr cd)"
    unfolding step3_def Let_def using r2 all same3 by simp
  have sun1: "sun_pkl_fn st1 = Some sdf" using st1 sp(1) by simp
  have same4: "st1\<lparr>sun_pkl_fn := Some sdf\<rparr> = st1" using sun1 by simp
  show ?thesis
    unfolding sync_def Let_def dl rn using d2 s3' sun1 sp(2) same4 by simp
qed

theorem sync_twice_witness:
  "distinct (map calendarDate [example_raw 737426 (Some 27000), example_raw 737427 (Some 25000)]) \<and>
   read_nights no_files = [] \<and>
   snd (sync example_world no_files) = Inr () \<and>
   sync example_world (fst (sync example_world no_files))
     = (fst (sync example_world no_files), Inr ())"
proof -
  let ?db = "[example_raw 737426 (Some 27000), example_raw 737427 (Some 25000)]"
  have h1: "cfg_download_to_json example_world = provider_of ?db"
    by (simp add: example_world_def)
  have h2: "distinct (map calendarDate ?db)" by (simp add: example_raw_def)
  have h3: "read_nights no_files = [] \<or> confirmed_archive (read_nights no_files)"
    by (simp add: read_nights_def no_files_def)
  have s: "snd (sync example_world no_files) = Inr ()" by code_simp
  then have h4: "sync example_world no_files = (fst (sync example_world no_files), Inr ())"
    by (simp add: prod_eq_iff)
  from sync_twice [OF h1 h2 h3 h4] h2 s show ?thesis
    by (simp add: read_nights_def no_files_def)
qed

end
